theory Spec2Isabelle
  imports Complex_Main
begin

section \<open>Errors raised by the script and its libraries\<close>

datatype py_error = IndexError | ValueError | TypeError | RuntimeError

text \<open>Sequencing of fallible steps: the first error raised ends the computation.\<close>

definition bind_err :: "py_error + 'a \<Rightarrow> ('a \<Rightarrow> py_error + 'b) \<Rightarrow> py_error + 'b" where
  "bind_err r f = (case r of Inl e \<Rightarrow> Inl e | Inr v \<Rightarrow> f v)"

section \<open>Constants of the script\<close>

definition GAMMA :: real where "GAMMA = 99 / 100"
definition BATCH_SIZE :: int where "BATCH_SIZE = 32"
definition REPLAY_SIZE :: int where "REPLAY_SIZE = 20000"
definition SYNC_TARGET_FRAMES :: nat where "SYNC_TARGET_FRAMES = 10000"
definition REPLAY_START_SIZE :: nat where "REPLAY_START_SIZE = 5000"

section \<open>Experience and ExperienceBuffer\<close>

text \<open>
  \<open>Experience\<close> is the named tuple of the script (its field \<open>done\<close> is \<open>is_done\<close> here,
  \<open>done\<close> being a keyword). The type of the two observation fields is
  a parameter: the replay buffer of the running script holds references to arrays, the loss
  function reads the arrays themselves.
\<close>

record 's Experience =
  state :: 's
  action :: nat
  reward :: real
  is_done :: bool
  new_state :: 's

text \<open>
  \<open>ExperienceBuffer\<close>: the deque is a list, oldest entry first. \<open>deque.append\<close> adds at the
  right end, \<open>deque.popleft\<close> removes the head and raises \<open>IndexError\<close> on an empty deque.
\<close>

record 'a ExperienceBuffer =
  capacity :: int
  buffer :: "'a list"

definition ExperienceBuffer_init :: "int \<Rightarrow> 'a ExperienceBuffer" where
  "ExperienceBuffer_init c = \<lparr>capacity = c, buffer = []\<rparr>"

definition len_buffer :: "'a ExperienceBuffer \<Rightarrow> int" where
  "len_buffer b = int (length (buffer b))"

text \<open>The loop \<open>while len(self.buffer) > self.capacity: self.buffer.popleft()\<close>.\<close>

function popleft_loop :: "int \<Rightarrow> 'a list \<Rightarrow> py_error + 'a list" where
  "popleft_loop c xs =
     (if int (length xs) > c
      then (case xs of [] \<Rightarrow> Inl IndexError | _ # ys \<Rightarrow> popleft_loop c ys)
      else Inr xs)"
  by pat_completeness auto
termination
  by (relation "measure (\<lambda>(c, xs). length xs)") auto

declare popleft_loop.simps [simp del]

definition append_exp :: "'a ExperienceBuffer \<Rightarrow> 'a \<Rightarrow> py_error + 'a ExperienceBuffer" where
  "append_exp b experience =
     bind_err (popleft_loop (capacity b) (buffer b @ [experience]))
       (\<lambda>xs. Inr (b\<lparr>buffer := xs\<rparr>))"

text \<open>A sequence of \<open>append\<close> calls, in order, stopping at the first error.\<close>

fun append_all :: "'a ExperienceBuffer \<Rightarrow> 'a list \<Rightarrow> py_error + 'a ExperienceBuffer" where
  "append_all b [] = Inr b"
| "append_all b (e # es) = bind_err (append_exp b e) (\<lambda>b'. append_all b' es)"

section \<open>Epsilon schedule\<close>

text \<open>
  \<open>epsilon = max(0.1, 1.0 - frame_idx / 10**6)\<close>. Python evaluates the quotient of the two
  integers, the subtraction and the literal \<open>0.1\<close> in binary floating point, each result being
  the exact value rounded to a representable number. The rounding is the parameter \<open>rnd\<close>;
  with the identity for \<open>rnd\<close> the definition is the formula over the real numbers.
\<close>

definition epsilon_at :: "(real \<Rightarrow> real) \<Rightarrow> nat \<Rightarrow> real" where
  "epsilon_at rnd frame_idx = max (rnd (1 / 10)) (rnd (1 - rnd (real frame_idx / 10 ^ 6)))"

section \<open>TargetNet\<close>

text \<open>
  \<open>TargetNet\<close> keeps the value network and a deep copy of it. The parameters of a network
  (its \<open>state_dict\<close>) are a value of type \<open>'p\<close>; \<open>load_state_dict\<close> overwrites the parameters
  of the copy with the ones given.
\<close>

record 'p TargetNet =
  model :: 'p
  target_model :: 'p

definition TargetNet_init :: "'p \<Rightarrow> 'p TargetNet" where
  "TargetNet_init m = \<lparr>model = m, target_model = m\<rparr>"

definition sync :: "'p TargetNet \<Rightarrow> 'p TargetNet" where
  "sync t = t\<lparr>target_model := model t\<rparr>"

section \<open>ExperienceBuffer.sample\<close>

text \<open>
  \<open>np.random.choice(n, batch_size, replace=False)\<close> belongs to numpy. Its random outcome is
  the argument \<open>draw\<close> here; numpy raises \<open>ValueError\<close> for a negative size and for a size
  larger than the population \<open>n\<close>, and otherwise returns \<open>batch_size\<close> pairwise distinct
  indices below \<open>n\<close>, which is what \<open>choice_outcome\<close> says of a draw.
\<close>

definition np_random_choice :: "nat \<Rightarrow> int \<Rightarrow> nat list \<Rightarrow> py_error + nat list" where
  "np_random_choice n batch_size draw =
     (if batch_size < 0 then Inl ValueError
      else if int n < batch_size then Inl ValueError
      else Inr draw)"

definition choice_outcome :: "nat \<Rightarrow> int \<Rightarrow> nat list \<Rightarrow> bool" where
  "choice_outcome n batch_size draw \<longleftrightarrow>
     int (length draw) = batch_size \<and> distinct draw \<and> list_all (\<lambda>i. i < n) draw"

text \<open>\<open>self.buffer[idx]\<close> on the deque raises \<open>IndexError\<close> out of range.\<close>

definition deque_get :: "'a list \<Rightarrow> nat \<Rightarrow> py_error + 'a" where
  "deque_get xs idx = (if idx < length xs then Inr (xs ! idx) else Inl IndexError)"

fun get_all :: "'a list \<Rightarrow> nat list \<Rightarrow> py_error + 'a list" where
  "get_all xs [] = Inr []"
| "get_all xs (idx # indices) =
     bind_err (deque_get xs idx) (\<lambda>v. bind_err (get_all xs indices) (\<lambda>vs. Inr (v # vs)))"

definition sample :: "'a ExperienceBuffer \<Rightarrow> int \<Rightarrow> nat list \<Rightarrow> py_error + 'a list" where
  "sample b batch_size draw =
     bind_err (np_random_choice (length (buffer b)) batch_size draw) (get_all (buffer b))"

section \<open>calc\_loss\<close>

text \<open>
  Arrays are nested lists of real numbers. A network is the function from one observation to
  its row of action values; applied to a batch it yields one row per sample.
\<close>

type_synonym ndarray = "real list list list"

text \<open>
  The script computes in floating point: every result is the exact value rounded to a
  representable number. The roundings are parameters: \<open>to_double\<close> for the arithmetic of
  Python's floats, \<open>to_single\<close> for values stored in and computed on single-precision arrays
  and tensors, and \<open>to_accum\<close> for the running sum inside the mean of \<open>nn.MSELoss\<close>. With the
  identity for all three (\<open>exact_ops\<close>) the definitions below are the formulas over the real
  numbers.
\<close>

record float_ops =
  to_double :: "real \<Rightarrow> real"
  to_single :: "real \<Rightarrow> real"
  to_accum :: "real \<Rightarrow> real"

definition exact_ops :: float_ops where
  "exact_ops = \<lparr>to_double = (\<lambda>x. x), to_single = (\<lambda>x. x), to_accum = (\<lambda>x. x)\<rparr>"

fun max_list :: "real list \<Rightarrow> real" where
  "max_list [x] = x"
| "max_list (x # y # ys) = max x (max_list (y # ys))"

definition np_max :: "real list \<Rightarrow> py_error + real" where
  "np_max xs = (if xs = [] then Inl ValueError else Inr (max_list xs))"

text \<open>
  The body of the loop over the batch. \<open>R = exp.reward\<close>; if the transition is not terminal,
  \<open>R += GAMMA * np.max(new_q[idx])\<close>, a product and a sum of Python floats, \<open>GAMMA\<close> being the
  float written \<open>0.99\<close>; then \<open>y[idx][exp.action] = R\<close> stores \<open>R\<close> in the single-precision
  array \<open>y\<close>.
\<close>

definition loop_body ::
  "float_ops \<Rightarrow> real list \<Rightarrow> real list \<Rightarrow> 's Experience \<Rightarrow> py_error + real list" where
  "loop_body fp y_row new_q_row ex =
     bind_err
       (if \<not> is_done ex
        then bind_err (np_max new_q_row)
               (\<lambda>m. Inr (to_double fp (reward ex + to_double fp (to_double fp GAMMA * m))))
        else Inr (reward ex))
       (\<lambda>R. if action ex < length y_row
             then Inr (y_row[action ex := to_single fp R]) else Inl IndexError)"

fun target_loop ::
  "float_ops \<Rightarrow> real list list \<Rightarrow> real list list \<Rightarrow> 's Experience list
     \<Rightarrow> py_error + real list list" where
  "target_loop fp y new_q [] = Inr y"
| "target_loop fp (y_row # y) (new_q_row # new_q) (ex # batch) =
     bind_err (loop_body fp y_row new_q_row ex)
       (\<lambda>r. bind_err (target_loop fp y new_q batch) (\<lambda>rs. Inr (r # rs)))"
| "target_loop fp y new_q (ex # batch) = Inl IndexError"

text \<open>
  \<open>nn.MSELoss()\<close> with its default averaging, on single-precision tensors: the difference of
  every pair of entries and its square are single-precision results, the squares of all
  entries are added one after the other to a running sum, and the sum is divided by the
  number of entries. (With no entry torch returns NaN; that case is an error here.)
\<close>

definition sq_single :: "float_ops \<Rightarrow> real \<Rightarrow> real \<Rightarrow> real" where
  "sq_single fp a b = to_single fp ((to_single fp (a - b))\<^sup>2)"

definition rounded_sum :: "float_ops \<Rightarrow> real list \<Rightarrow> real" where
  "rounded_sum fp xs = foldl (\<lambda>s v. to_accum fp (s + v)) 0 xs"

definition MSELoss :: "float_ops \<Rightarrow> real list list \<Rightarrow> real list list \<Rightarrow> py_error + real" where
  "MSELoss fp inp tgt =
     (if map length inp \<noteq> map length tgt \<or> concat inp = [] then Inl RuntimeError
      else Inr (to_single fp (to_accum fp
                  (rounded_sum fp (map (\<lambda>(a, b). sq_single fp a b) (zip (concat inp) (concat tgt)))
                   / real (length (concat inp))))))"

text \<open>
  \<open>calc_loss\<close>. The network cannot be applied to the empty tensor of an empty batch
  (\<open>RuntimeError\<close>).
\<close>

definition calc_loss ::
  "float_ops \<Rightarrow> 's Experience list \<Rightarrow> ('s \<Rightarrow> real list) \<Rightarrow> py_error + real" where
  "calc_loss fp batch net =
     (if batch = [] then Inl RuntimeError
      else
        let q_v = map (\<lambda>ex. net (state ex)) batch;
            y = q_v;
            new_q = map (\<lambda>ex. net (new_state ex)) batch
        in bind_err (target_loop fp y new_q batch) (\<lambda>y'. MSELoss fp q_v y'))"

text \<open>
  The loss in the words of the specification, for comparison: the target scalar of a sample
  and the mean over the batch of the squared differences at the taken actions.
\<close>

definition td_target :: "('s \<Rightarrow> real list) \<Rightarrow> 's Experience \<Rightarrow> real" where
  "td_target net ex =
     (if is_done ex then reward ex
      else reward ex + GAMMA * Max (set (net (new_state ex))))"

definition squared_errors :: "('s \<Rightarrow> real list) \<Rightarrow> 's Experience list \<Rightarrow> real" where
  "squared_errors net batch =
     (\<Sum>ex\<leftarrow>batch. (net (state ex) ! action ex - td_target net ex)\<^sup>2)"

definition batch_mse :: "('s \<Rightarrow> real list) \<Rightarrow> 's Experience list \<Rightarrow> real" where
  "batch_mse net batch = squared_errors net batch / real (length batch)"

text \<open>
  The same two quantities as the script computes them: the value of \<open>R\<close> for a sample, and the
  squared difference between the current estimate at the taken action and \<open>R\<close> as stored.
\<close>

definition loss_target :: "float_ops \<Rightarrow> ('s \<Rightarrow> real list) \<Rightarrow> 's Experience \<Rightarrow> real" where
  "loss_target fp net ex =
     (if is_done ex then reward ex
      else to_double fp (reward ex
             + to_double fp (to_double fp GAMMA * Max (set (net (new_state ex))))))"

definition sample_error :: "float_ops \<Rightarrow> ('s \<Rightarrow> real list) \<Rightarrow> 's Experience \<Rightarrow> real" where
  "sample_error fp net ex =
     sq_single fp (net (state ex) ! action ex) (to_single fp (loss_target fp net ex))"

section \<open>ImageWrapper and BufferWrapper\<close>

text \<open>
  A three-dimensional array is a list (first axis) of lists (second axis) of lists (third
  axis); \<open>has_shape\<close> says that it is rectangular with the given extents.
\<close>

definition has_shape :: "ndarray \<Rightarrow> nat \<times> nat \<times> nat \<Rightarrow> bool" where
  "has_shape a s \<longleftrightarrow>
     (case s of (d0, d1, d2) \<Rightarrow>
        length a = d0 \<and> list_all (\<lambda>p. length p = d1 \<and> list_all (\<lambda>r. length r = d2) p) a)"

definition X_OFS :: nat where "X_OFS = 20"

text \<open>\<open>obs.mean(axis=-1, keepdims=True)\<close>: every pixel becomes the one-element list of its mean.\<close>

definition mean_keepdims :: "ndarray \<Rightarrow> ndarray" where
  "mean_keepdims obs = map (map (\<lambda>px. [sum_list px / real (length px)])) obs"

text \<open>\<open>obs[self.X_OFS:self.X_OFS+84, :, :]\<close>\<close>

definition crop :: "ndarray \<Rightarrow> ndarray" where
  "crop obs = take 84 (drop X_OFS obs)"

text \<open>
  \<open>np.moveaxis(obs, 2, 0)\<close>: entry \<open>(k, i, j)\<close> of the result is entry \<open>(i, j, k)\<close> of \<open>obs\<close>.
  The extent of the last axis is read off the first pixel.
\<close>

definition channels :: "ndarray \<Rightarrow> nat" where
  "channels obs =
     (case obs of [] \<Rightarrow> 0 | row # _ \<Rightarrow> (case row of [] \<Rightarrow> 0 | px # _ \<Rightarrow> length px))"

definition moveaxis_2_0 :: "ndarray \<Rightarrow> ndarray" where
  "moveaxis_2_0 obs = map (\<lambda>k. map (map (\<lambda>px. px ! k)) obs) [0..<channels obs]"

text \<open>
  \<open>ImageWrapper._observation\<close>. \<open>imresize\<close> belongs to scipy and is a parameter: it maps the
  raw frame to an array of 110 rows, 84 columns and the colour channels of the frame.
\<close>

definition ImageWrapper_observation :: "('r \<Rightarrow> ndarray) \<Rightarrow> 'r \<Rightarrow> ndarray" where
  "ImageWrapper_observation imresize obs =
     map (map (map (\<lambda>v. v / 255))) (moveaxis_2_0 (crop (mean_keepdims (imresize obs))))"

definition zeros_like :: "ndarray \<Rightarrow> ndarray" where
  "zeros_like a = map (map (map (\<lambda>v. 0))) a"

text \<open>
  The observation spaces built by the two constructors, by their \<open>low\<close> arrays:
  \<open>Box(0, 1, shape)\<close> has the array of zeros of that shape, and \<open>low.repeat(n_steps, axis=0)\<close>
  repeats every entry of the first axis \<open>n_steps\<close> times.
\<close>

definition ImageWrapper_low :: "('r \<Rightarrow> ndarray) \<Rightarrow> 'r \<Rightarrow> ndarray" where
  "ImageWrapper_low imresize raw_low = zeros_like (ImageWrapper_observation imresize raw_low)"

definition BufferWrapper_low :: "ndarray \<Rightarrow> nat \<Rightarrow> ndarray" where
  "BufferWrapper_low old_low n_steps = concat (map (replicate n_steps) old_low)"

text \<open>
  \<open>BufferWrapper._observation\<close>, on the contents of \<open>self.buffer\<close>. The first statement,
  \<open>self.buffer[:-1] = self.buffer[1:]\<close>, moves every frame but the first one place towards
  the front and leaves the last slot as it is. The second, \<open>self.buffer[-1] = observation\<close>,
  raises \<open>IndexError\<close> on a buffer with no slot and \<open>ValueError\<close> when the observation does not
  fit the slot; the observation of \<open>ImageWrapper\<close> has one leading entry, the frame. (numpy
  would also stretch an observation with an axis of extent one; no such observation occurs.)
\<close>

definition shift_frames :: "ndarray \<Rightarrow> ndarray" where
  "shift_frames buf = (if buf = [] then [] else tl buf @ [last buf])"

definition store_last :: "ndarray \<Rightarrow> ndarray \<Rightarrow> py_error + ndarray" where
  "store_last buf observation =
     (if buf = [] then Inl IndexError
      else (case observation of
              [frame] \<Rightarrow>
                if map length frame = map length (last buf)
                then Inr (butlast buf @ [frame]) else Inl ValueError
            | _ \<Rightarrow> Inl ValueError))"

definition BufferWrapper_observation :: "ndarray \<Rightarrow> ndarray \<Rightarrow> py_error + ndarray" where
  "BufferWrapper_observation buf observation = store_last (shift_frames buf) observation"

text \<open>\<open>BufferWrapper._reset\<close>: a fresh array of zeros, then the first observation.\<close>

definition BufferWrapper_reset :: "ndarray \<Rightarrow> ndarray \<Rightarrow> py_error + ndarray" where
  "BufferWrapper_reset space_low first_observation =
     BufferWrapper_observation (zeros_like space_low) first_observation"

section \<open>The environment, the agent and the training loop\<close>

text \<open>
  The collaborators of the script that are not part of it: the gym environment (its state
  has type \<open>'e\<close>, its raw frames type \<open>'r\<close>), scipy's \<open>imresize\<close>, the forward pass of the
  network as a function of its parameters, and what \<open>loss_v.backward()\<close> adds to the
  gradients stored with the parameters. \<open>fops\<close> holds the roundings of floating-point
  results.
\<close>

record ('e, 'r, 'p, 'g) externals =
  gym_reset :: "'e \<Rightarrow> 'e \<times> 'r"
  gym_step :: "'e \<Rightarrow> nat \<Rightarrow> 'e \<times> 'r \<times> real \<times> bool"
  gym_low :: 'r
  resize :: "'r \<Rightarrow> ndarray"
  forward :: "'p \<Rightarrow> ndarray \<Rightarrow> real list"
  backward :: "'p \<Rightarrow> ndarray Experience list \<Rightarrow> 'g \<Rightarrow> 'g"
  zero_grad :: 'g
  fops :: float_ops

text \<open>
  numpy arrays are objects that several names may refer to: the store \<open>heap\<close> lists their
  contents, an address is a position in it, and a new array goes to the end of it.
  \<open>env_buffer\<close> is \<open>BufferWrapper.buffer\<close>, \<open>agent_state\<close> and \<open>total_reward\<close> are the two
  attributes of the agent, \<open>exp_buffer\<close> is the replay buffer, whose experiences refer to
  arrays in the store.
\<close>

type_synonym addr = nat

record 'e world =
  heap :: "ndarray list"
  gym :: 'e
  env_buffer :: addr
  agent_state :: addr
  total_reward :: real
  exp_buffer :: "addr Experience ExperienceBuffer"

definition alloc :: "ndarray list \<Rightarrow> ndarray \<Rightarrow> ndarray list \<times> addr" where
  "alloc h a = (h @ [a], length h)"

text \<open>\<open>env = BufferWrapper(ImageWrapper(gym.make(...)), n_steps=4)\<close>: its observation space.\<close>

definition space_low :: "('e, 'r, 'p, 'g) externals \<Rightarrow> ndarray" where
  "space_low X = BufferWrapper_low (ImageWrapper_low (resize X) (gym_low X)) 4"

text \<open>
  \<open>env.reset()\<close>: \<open>BufferWrapper._reset\<close> makes a new array of zeros for \<open>self.buffer\<close>, resets
  the wrapped environment, whose frame passes through \<open>ImageWrapper._observation\<close>, and
  returns \<open>self._observation(...)\<close>, which is \<open>self.buffer\<close> itself, written in place.
\<close>

definition env_reset ::
  "('e, 'r, 'p, 'g) externals \<Rightarrow> 'e world \<Rightarrow> py_error + ('e world \<times> addr)" where
  "env_reset X w =
     (case alloc (heap w) (zeros_like (space_low X)) of (h1, b) \<Rightarrow>
      case gym_reset X (gym w) of (g1, raw) \<Rightarrow>
        bind_err (BufferWrapper_observation (h1 ! b) (ImageWrapper_observation (resize X) raw))
          (\<lambda>contents. Inr (w\<lparr>heap := h1[b := contents], gym := g1, env_buffer := b\<rparr>, b)))"

text \<open>
  \<open>env.step(action)\<close>: the wrapped environment steps, and the observation returned is again
  \<open>self.buffer\<close>, written in place.
\<close>

definition env_step ::
  "('e, 'r, 'p, 'g) externals \<Rightarrow> 'e world \<Rightarrow> nat
     \<Rightarrow> py_error + ('e world \<times> addr \<times> real \<times> bool)" where
  "env_step X w act =
     (case gym_step X (gym w) act of (g1, raw, r, d) \<Rightarrow>
        bind_err (BufferWrapper_observation (heap w ! env_buffer w)
                    (ImageWrapper_observation (resize X) raw))
          (\<lambda>contents. Inr (w\<lparr>heap := (heap w)[env_buffer w := contents], gym := g1\<rparr>,
                             env_buffer w, r, d)))"

text \<open>\<open>Agent._reset\<close>: \<open>self.state = env.reset().copy()\<close>, \<open>self.total_reward = 0.0\<close>.\<close>

definition Agent_reset :: "('e, 'r, 'p, 'g) externals \<Rightarrow> 'e world \<Rightarrow> py_error + 'e world" where
  "Agent_reset X w =
     bind_err (env_reset X w)
       (\<lambda>(w1, ob). case alloc (heap w1) (heap w1 ! ob) of (h2, c) \<Rightarrow>
          Inr (w1\<lparr>heap := h2, agent_state := c, total_reward := 0\<rparr>))"

text \<open>
  \<open>exp_buffer = ExperienceBuffer(capacity=REPLAY_SIZE)\<close> and \<open>agent = Agent(env, exp_buffer)\<close>,
  before any array exists.
\<close>

definition Agent_init :: "('e, 'r, 'p, 'g) externals \<Rightarrow> 'e \<Rightarrow> py_error + 'e world" where
  "Agent_init X g =
     Agent_reset X \<lparr>heap = [], gym = g, env_buffer = 0, agent_state = 0, total_reward = 0,
                    exp_buffer = ExperienceBuffer_init REPLAY_SIZE\<rparr>"

text \<open>\<open>torch.max(q_vals_v, dim=1)\<close>: the position of the largest action value, the first one.\<close>

definition argmax :: "real list \<Rightarrow> py_error + nat" where
  "argmax q =
     (if q = [] then Inl RuntimeError
      else Inr (length (takeWhile (\<lambda>v. v \<noteq> max_list q) q)))"

text \<open>
  \<open>Agent.play_step\<close>. The random outcomes are arguments: \<open>u\<close> is the value of
  \<open>np.random.random()\<close> and \<open>rand_action\<close> that of \<open>env.action_space.sample()\<close>. The network is
  \<open>None\<close> or a callable; calling \<open>None\<close> raises \<open>TypeError\<close>. The result is the new state of
  the world and \<open>done_reward\<close>.
\<close>

definition select_action ::
  "(ndarray \<Rightarrow> real list) option \<Rightarrow> real \<Rightarrow> real \<Rightarrow> nat \<Rightarrow> ndarray \<Rightarrow> py_error + nat" where
  "select_action net eps u rand_action st =
     (if u < eps then Inr rand_action
      else (case net of None \<Rightarrow> Inl TypeError | Some f \<Rightarrow> argmax (f st)))"

definition play_step ::
  "('e, 'r, 'p, 'g) externals \<Rightarrow> (ndarray \<Rightarrow> real list) option \<Rightarrow> real \<Rightarrow> real \<times> nat
     \<Rightarrow> 'e world \<Rightarrow> py_error + ('e world \<times> real option)" where
  "play_step X net eps rnd w =
     bind_err (select_action net eps (fst rnd) (snd rnd) (heap w ! agent_state w))
       (\<lambda>act.
          bind_err (env_step X w act)
            (\<lambda>(w1, ob, r, d).
               case alloc (heap w1) (heap w1 ! ob) of (h2, ns) \<Rightarrow>
               bind_err (append_exp (exp_buffer w1)
                           \<lparr>state = agent_state w1, action = act, reward = r, is_done = d,
                            new_state = ns\<rparr>)
                 (\<lambda>b.
                    let w2 = w1\<lparr>heap := h2, agent_state := ns,
                                total_reward := total_reward w1 + r, exp_buffer := b\<rparr>
                    in if d
                       then bind_err (Agent_reset X w2) (\<lambda>w3. Inr (w3, Some (total_reward w2)))
                       else Inr (w2, None))))"

text \<open>Consecutive calls of \<open>play_step\<close> with the same network and epsilon, one per random outcome.\<close>

fun play_steps ::
  "('e, 'r, 'p, 'g) externals \<Rightarrow> (ndarray \<Rightarrow> real list) option \<Rightarrow> real \<Rightarrow> (real \<times> nat) list
     \<Rightarrow> 'e world \<Rightarrow> py_error + 'e world" where
  "play_steps X net eps [] w = Inr w"
| "play_steps X net eps (rnd # rnds) w =
     bind_err (play_step X net eps rnd w) (\<lambda>(w1, r). play_steps X net eps rnds w1)"

text \<open>
  The warm-up loop, \<open>for _ in range(REPLAY_START_SIZE): agent.play_step(None, epsilon=1.0)\<close>;
  \<open>rnds i\<close> holds the random outcomes of call number \<open>i\<close>.
\<close>

definition warmup ::
  "('e, 'r, 'p, 'g) externals \<Rightarrow> (nat \<Rightarrow> real \<times> nat) \<Rightarrow> 'e world \<Rightarrow> py_error + 'e world" where
  "warmup X rnds w = play_steps X None 1 (map rnds [0..<REPLAY_START_SIZE]) w"

text \<open>
  The state of the training loop: the world, the two networks of \<open>tgt_net\<close> (\<open>net\<close> is
  \<open>tgt_net.model\<close>), the gradients stored with the parameters of \<open>net\<close>, \<open>epsilon\<close> and
  \<open>frame_idx\<close>.
\<close>

record ('e, 'p, 'g) session =
  world :: "'e world"
  tgt_net :: "'p TargetNet"
  grads :: 'g
  epsilon :: real
  frame_idx :: nat

text \<open>\<open>torch.FloatTensor(x)\<close> reads the arrays that the experiences of a batch refer to.\<close>

definition load :: "ndarray list \<Rightarrow> addr Experience \<Rightarrow> ndarray Experience" where
  "load h ex = \<lparr>state = h ! state ex, action = action ex, reward = reward ex,
               is_done = is_done ex, new_state = h ! new_state ex\<rparr>"

text \<open>The call \<open>agent.play_step(tgt_net.target_model, epsilon=epsilon)\<close> of the loop.\<close>

definition play_phase ::
  "('e, 'r, 'p, 'g) externals \<Rightarrow> real \<times> nat \<Rightarrow> ('e, 'p, 'g) session
     \<Rightarrow> py_error + ('e world \<times> real option)" where
  "play_phase X rnd s =
     play_step X (Some (forward X (target_model (tgt_net s)))) (epsilon s) rnd (world s)"

text \<open>
  The statements under \<open>if len(exp_buffer) >= BATCH_SIZE\<close>: a batch is sampled, the gradients
  are zeroed, the loss of \<open>net\<close> on the batch is computed and propagated back. The result is
  the gradients; the script has no further statement that uses them.
\<close>

definition learn_phase ::
  "('e, 'r, 'p, 'g) externals \<Rightarrow> nat list \<Rightarrow> ('e, 'p, 'g) session \<Rightarrow> 'e world
     \<Rightarrow> py_error + 'g" where
  "learn_phase X draw s w =
     (if len_buffer (exp_buffer w) \<ge> BATCH_SIZE
      then bind_err (sample (exp_buffer w) BATCH_SIZE draw)
             (\<lambda>batch.
                bind_err (calc_loss (fops X) (map (load (heap w)) batch)
                            (forward X (model (tgt_net s))))
                  (\<lambda>loss_v. Inr (backward X (model (tgt_net s)) (map (load (heap w)) batch)
                                    (zero_grad X))))
      else Inr (grads s))"

text \<open>One iteration of \<open>while True\<close>; printing and the summary writer are left out.\<close>

definition train_iter ::
  "('e, 'r, 'p, 'g) externals \<Rightarrow> (real \<times> nat) \<times> nat list \<Rightarrow> ('e, 'p, 'g) session
     \<Rightarrow> py_error + ('e, 'p, 'g) session" where
  "train_iter X rnd s =
     bind_err (play_phase X (fst rnd) s)
       (\<lambda>(w1, r).
          bind_err (learn_phase X (snd rnd) s w1)
            (\<lambda>g. Inr (s\<lparr>world := w1,
                         grads := g,
                         epsilon := epsilon_at (to_double (fops X)) (frame_idx s),
                         tgt_net := (if frame_idx s mod SYNC_TARGET_FRAMES = 0
                                     then sync (tgt_net s) else tgt_net s),
                         frame_idx := frame_idx s + 1\<rparr>)))"

text \<open>
  What holds of the world between two calls of the agent: \<open>BufferWrapper.buffer\<close> is an array
  of the store of shape \<open>(4, 84, 84)\<close>; the state of the agent and the observations of the
  experiences in the replay buffer are arrays of the store other than it; the capacity of the
  replay buffer is not negative. \<open>extends w w'\<close> relates an earlier world to a later one: no
  array has gone, \<open>BufferWrapper.buffer\<close> is the same array or one that did not exist, and every
  other array that existed has kept its contents.
\<close>

definition wf_world :: "'e world \<Rightarrow> bool" where
  "wf_world w \<longleftrightarrow>
     env_buffer w < length (heap w) \<and> has_shape (heap w ! env_buffer w) (4, 84, 84)
     \<and> agent_state w < length (heap w) \<and> agent_state w \<noteq> env_buffer w
     \<and> 0 \<le> capacity (exp_buffer w)
     \<and> list_all (\<lambda>ex. state ex < length (heap w) \<and> state ex \<noteq> env_buffer w
                     \<and> new_state ex < length (heap w) \<and> new_state ex \<noteq> env_buffer w)
          (buffer (exp_buffer w))"

definition extends :: "'e world \<Rightarrow> 'e world \<Rightarrow> bool" where
  "extends w w' \<longleftrightarrow>
     length (heap w) \<le> length (heap w')
     \<and> (env_buffer w' = env_buffer w \<or> length (heap w) \<le> env_buffer w')
     \<and> list_all (\<lambda>a. a = env_buffer w \<or> heap w' ! a = heap w ! a) [0..<length (heap w)]"

text \<open>
  A small instance for the examples below: an environment that counts its steps, shows a
  black frame, pays reward 1 and ends the episode at every third step; a resize that fills
  an image of 110 by 84 pixels with the value given; a network with two actions whose
  parameter is its first action value; gradients that count the backward passes.
\<close>

definition example_externals :: "(nat, real, real, nat) externals" where
  "example_externals =
     \<lparr>gym_reset = (\<lambda>g. (0, 0)),
      gym_step = (\<lambda>g act. (Suc g, 0, 1, Suc g mod 3 = 0)),
      gym_low = 0,
      resize = (\<lambda>v. replicate 110 (replicate 84 [v, v, v])),
      forward = (\<lambda>p st. [p, 0]),
      backward = (\<lambda>p batch g. Suc g),
      zero_grad = 0,
      fops = exact_ops\<rparr>"

definition example_world :: "nat world" where
  "example_world =
     \<lparr>heap = [replicate 4 (replicate 84 (replicate 84 0)),
              replicate 4 (replicate 84 (replicate 84 0))],
      gym = 0, env_buffer = 0, agent_state = 1, total_reward = 0,
      exp_buffer = \<lparr>capacity = REPLAY_SIZE,
                     buffer = replicate 32 \<lparr>state = 1, action = 0, reward = 0, is_done = False,
                                           new_state = 1\<rparr>\<rparr>\<rparr>"

definition example_session :: "(nat, real, nat) session" where
  "example_session =
     \<lparr>world = example_world, tgt_net = TargetNet_init 1, grads = 0, epsilon = 1, frame_idx = 0\<rparr>"

section \<open>Replay buffer: bounded size and FIFO eviction\<close>

lemma popleft_loop_drop:
  "0 \<le> c \<Longrightarrow> popleft_loop c xs = Inr (drop (length xs - nat c) xs)"
proof (induction c xs rule: popleft_loop.induct)
  case (1 c xs)
  show ?case
  proof (cases "int (length xs) > c")
    case False
    then show ?thesis by (simp add: popleft_loop.simps [of c xs])
  next
    case True
    with "1.prems" obtain y ys where xs: "xs = y # ys" by (cases xs) auto
    from True xs "1.prems" have "nat c \<le> length ys" by simp
    then have d: "Suc (length ys) - nat c = Suc (length ys - nat c)"
      by (rule Suc_diff_le)
    from "1.IH" [OF True xs] "1.prems"
    have "popleft_loop c ys = Inr (drop (length ys - nat c) ys)" by simp
    with True xs d show ?thesis by (simp add: popleft_loop.simps [of c "y # ys"])
  qed
qed

lemma append_exp_drop:
  "0 \<le> capacity b \<Longrightarrow>
   append_exp b e =
     Inr (b\<lparr>buffer := drop (Suc (length (buffer b)) - nat (capacity b)) (buffer b @ [e])\<rparr>)"
  by (simp add: append_exp_def bind_err_def popleft_loop_drop)

lemma append_all_general:
  "1 \<le> capacity b \<Longrightarrow> length (buffer b) \<le> nat (capacity b) \<Longrightarrow>
   append_all b es =
     Inr (b\<lparr>buffer := drop (length (buffer b) + length es - nat (capacity b)) (buffer b @ es)\<rparr>)"
proof (induction es arbitrary: b)
  case Nil
  then show ?case by simp
next
  case (Cons e es)
  let ?c = "nat (capacity b)"
  let ?b' = "b\<lparr>buffer := drop (Suc (length (buffer b)) - ?c) (buffer b @ [e])\<rparr>"
  from Cons.prems have step: "append_exp b e = Inr ?b'"
    by (simp add: append_exp_drop)
  from Cons.prems have len': "length (buffer ?b') \<le> nat (capacity ?b')" by simp
  from Cons.prems have cap': "1 \<le> capacity ?b'" by simp
  have "append_all ?b' es =
        Inr (?b'\<lparr>buffer := drop (length (buffer ?b') + length es - nat (capacity ?b'))
                              (buffer ?b' @ es)\<rparr>)"
    by (rule Cons.IH [OF cap' len'])
  moreover have "drop (length (buffer ?b') + length es - ?c) (buffer ?b' @ es)
               = drop (length (buffer b) + length (e # es) - ?c) (buffer b @ e # es)"
  proof (cases "Suc (length (buffer b)) \<le> ?c")
    case True
    then show ?thesis by simp
  next
    case False
    with Cons.prems have eq: "length (buffer b) = ?c" by simp
    with Cons.prems have pos: "0 < ?c" by simp
    from eq pos show ?thesis
      by (cases "buffer b") (simp_all add: Suc_diff_le)
  qed
  ultimately show ?case using step by (simp add: bind_err_def)
qed

text \<open>
  C2. For every sequence of appends to a fresh buffer of capacity \<open>C \<ge> 1\<close> the size never
  exceeds \<open>C\<close>, the contents are the last \<open>min C n\<close> of the \<open>n\<close> appended items in insertion
  order, and once more than \<open>C\<close> items were appended the buffer holds exactly the most recent
  \<open>C\<close> of them.
\<close>

theorem replay_buffer_fifo:
  assumes "1 \<le> C"
  shows "\<exists>b. append_all (ExperienceBuffer_init C) es = Inr b
           \<and> capacity b = C
           \<and> len_buffer b \<le> C
           \<and> buffer b = drop (length es - nat C) es
           \<and> (int (length es) > C \<longrightarrow> len_buffer b = C)"
proof -
  let ?b0 = "ExperienceBuffer_init C :: 'a ExperienceBuffer"
  from assms have "append_all ?b0 es =
      Inr (?b0\<lparr>buffer := drop (length (buffer ?b0) + length es - nat (capacity ?b0))
                            (buffer ?b0 @ es)\<rparr>)"
    by (intro append_all_general) (simp_all add: ExperienceBuffer_init_def)
  then have "append_all ?b0 es = Inr (?b0\<lparr>buffer := drop (length es - nat C) es\<rparr>)"
    by (simp add: ExperienceBuffer_init_def)
  moreover from assms have "int (length (drop (length es - nat C) es)) \<le> C" by auto
  moreover from assms have "int (length es) > C \<longrightarrow> int (length (drop (length es - nat C) es)) = C"
    by auto
  ultimately show ?thesis
    by (simp add: len_buffer_def ExperienceBuffer_init_def)
qed

theorem replay_buffer_fifo_witness:
  "(1::int) \<le> 3 \<and>
   (\<exists>b. append_all (ExperienceBuffer_init 3) [''A'', ''B'', ''C'', ''D''] = Inr b
      \<and> capacity b = 3 \<and> len_buffer b \<le> 3 \<and> buffer b = [''B'', ''C'', ''D''] \<and> len_buffer b = 3)"
  using replay_buffer_fifo [of 3 "[''A'', ''B'', ''C'', ''D'']"]
  by (simp add: numeral_3_eq_3)

section \<open>Epsilon: monotone, bounded below, one at step zero\<close>

text \<open>
  C5. For every rounding that is monotone and leaves 0 and 1 unchanged (round-to-nearest
  is one, the identity another) epsilon is non-increasing in the step count, never below the
  floor, the constant \<open>0.1\<close> of the script, and exactly 1 at step 0.
\<close>

theorem epsilon_schedule:
  assumes "mono rnd" and "rnd 0 = 0" and "rnd 1 = 1"
  shows "(\<forall>m n. m \<le> n \<longrightarrow> epsilon_at rnd n \<le> epsilon_at rnd m)
       \<and> (\<forall>n. rnd (1 / 10) \<le> epsilon_at rnd n)
       \<and> epsilon_at rnd 0 = 1"
proof (intro conjI allI impI)
  fix m n :: nat
  assume "m \<le> n"
  then have "real m / 10 ^ 6 \<le> real n / 10 ^ 6" by (simp add: divide_right_mono)
  with assms(1) have "rnd (real m / 10 ^ 6) \<le> rnd (real n / 10 ^ 6)" by (rule monoD)
  then have "1 - rnd (real n / 10 ^ 6) \<le> 1 - rnd (real m / 10 ^ 6)" by simp
  with assms(1) have "rnd (1 - rnd (real n / 10 ^ 6)) \<le> rnd (1 - rnd (real m / 10 ^ 6))"
    by (rule monoD)
  then show "epsilon_at rnd n \<le> epsilon_at rnd m"
    unfolding epsilon_at_def by (rule max.mono [OF order_refl])
next
  fix n show "rnd (1 / 10) \<le> epsilon_at rnd n" by (simp add: epsilon_at_def)
next
  from assms(1) have "rnd (1 / 10) \<le> rnd 1" by (rule monoD) simp
  with assms(2,3) show "epsilon_at rnd 0 = 1" by (simp add: epsilon_at_def)
qed

theorem epsilon_schedule_witness:
  "mono (\<lambda>x::real. x) \<and> (\<lambda>x::real. x) 0 = 0 \<and> (\<lambda>x::real. x) 1 = 1
   \<and> epsilon_at (\<lambda>x. x) 500000 \<le> epsilon_at (\<lambda>x. x) 0
   \<and> epsilon_at (\<lambda>x. x) 500000 = 1 / 2
   \<and> epsilon_at (\<lambda>x. x) 2000000 = 1 / 10
   \<and> 1 / 10 \<le> epsilon_at (\<lambda>x. x) 2000000
   \<and> epsilon_at (\<lambda>x. x) 0 = 1"
proof -
  have m: "mono (\<lambda>x::real. x)" by (simp add: mono_def)
  note E = epsilon_schedule [of "\<lambda>x. x", OF m refl refl]
  from E have dec: "\<forall>m n. m \<le> n \<longrightarrow> epsilon_at (\<lambda>x. x) n \<le> epsilon_at (\<lambda>x. x) m"
    by (rule conjunct1)
  from E have low: "\<forall>n. 1 / 10 \<le> epsilon_at (\<lambda>x. x) n"
    by (rule conjunct1 [OF conjunct2])
  from E have one: "epsilon_at (\<lambda>x. x) 0 = 1"
    by (rule conjunct2 [OF conjunct2])
  from dec [rule_format, of 0 500000]
  have a: "epsilon_at (\<lambda>x. x) 500000 \<le> epsilon_at (\<lambda>x. x) 0" by simp
  have b: "epsilon_at (\<lambda>x. x) 500000 = 1 / 2" by (simp add: epsilon_at_def)
  have c: "epsilon_at (\<lambda>x. x) 2000000 = 1 / 10" by (simp add: epsilon_at_def)
  from low have d: "1 / 10 \<le> epsilon_at (\<lambda>x. x) 2000000" by (rule spec)
  from m a b c d one show ?thesis by (intro conjI) simp_all
qed

section \<open>Target sync is idempotent\<close>

text \<open>
  C8. Two consecutive calls of \<open>sync\<close>, with no update of the value network between them,
  leave the target parameters after the second call as they were after the first, and both
  equal to the parameters of the value network.
\<close>

theorem sync_idempotent:
  "sync (sync t) = sync t
   \<and> target_model (sync (sync t)) = target_model (sync t)
   \<and> target_model (sync t) = model t
   \<and> model (sync t) = model t"
  by (simp add: sync_def)

section \<open>Sampling from the replay buffer\<close>

lemma get_all_map:
  "list_all (\<lambda>i. i < length xs) draw \<Longrightarrow> get_all xs draw = Inr (map (nth xs) draw)"
  by (induction draw) (simp_all add: bind_err_def deque_get_def)

lemma distinct_map_nth:
  "distinct xs \<Longrightarrow> distinct draw \<Longrightarrow> list_all (\<lambda>i. i < length xs) draw \<Longrightarrow>
   distinct (map (nth xs) draw)"
  by (auto simp: distinct_map inj_on_def list_all_iff nth_eq_iff_index_eq)

text \<open>
  C3 (as amended). With at least \<open>k\<close> entries in the buffer, \<open>sample(k)\<close> returns the \<open>k\<close>
  entries at the drawn, pairwise distinct positions, each a member of the contents, and
  pairwise distinct whenever the contents of the buffer are; with fewer than \<open>k\<close> entries it
  fails with \<open>ValueError\<close>.
\<close>

theorem sample_result:
  "(batch_size \<le> len_buffer b \<and> choice_outcome (length (buffer b)) batch_size draw \<longrightarrow>
      (\<exists>r. sample b batch_size draw = Inr r
         \<and> int (length r) = batch_size
         \<and> r = map (nth (buffer b)) draw \<and> distinct draw
         \<and> list_all (\<lambda>x. x \<in> set (buffer b)) r
         \<and> (distinct (buffer b) \<longrightarrow> distinct r)))
   \<and> (len_buffer b < batch_size \<longrightarrow> sample b batch_size draw = Inl ValueError)"
proof (intro conjI impI)
  assume "len_buffer b < batch_size"
  then show "sample b batch_size draw = Inl ValueError"
    by (simp add: sample_def np_random_choice_def bind_err_def len_buffer_def)
next
  assume h: "batch_size \<le> len_buffer b \<and> choice_outcome (length (buffer b)) batch_size draw"
  then have len: "int (length draw) = batch_size" and d: "distinct draw"
    and r: "list_all (\<lambda>i. i < length (buffer b)) draw"
    by (simp_all add: choice_outcome_def)
  from h len have c: "np_random_choice (length (buffer b)) batch_size draw = Inr draw"
    by (auto simp: np_random_choice_def len_buffer_def)
  have s: "sample b batch_size draw = Inr (map (nth (buffer b)) draw)"
    by (simp add: sample_def c bind_err_def get_all_map [OF r])
  from r have m: "list_all (\<lambda>x. x \<in> set (buffer b)) (map (nth (buffer b)) draw)"
    by (simp add: list_all_iff)
  from s len d m distinct_map_nth [OF _ d r]
  show "\<exists>r. sample b batch_size draw = Inr r
         \<and> int (length r) = batch_size
         \<and> r = map (nth (buffer b)) draw \<and> distinct draw
         \<and> list_all (\<lambda>x. x \<in> set (buffer b)) r
         \<and> (distinct (buffer b) \<longrightarrow> distinct r)"
    by simp
qed

theorem sample_result_witness:
  "(3 \<le> len_buffer \<lparr>capacity = 3, buffer = [''B'', ''C'', ''D'']\<rparr>
     \<and> choice_outcome (length (buffer \<lparr>capacity = 3, buffer = [''B'', ''C'', ''D'']\<rparr>)) 3 [2, 0, 1])
   \<and> sample \<lparr>capacity = 3, buffer = [''B'', ''C'', ''D'']\<rparr> 3 [2, 0, 1] = Inr [''D'', ''B'', ''C'']
   \<and> len_buffer \<lparr>capacity = 3, buffer = [''B'', ''C'', ''D'']\<rparr> < 4
   \<and> sample \<lparr>capacity = 3, buffer = [''B'', ''C'', ''D'']\<rparr> 4 [2, 0, 1] = Inl ValueError"
proof -
  let ?b = "\<lparr>capacity = 3, buffer = [''B'', ''C'', ''D'']\<rparr>"
  have h: "3 \<le> len_buffer ?b \<and> choice_outcome (length (buffer ?b)) 3 [2, 0, 1]"
    by (simp add: len_buffer_def choice_outcome_def)
  have l: "len_buffer ?b < 4" by (simp add: len_buffer_def)
  from sample_result [of 3 ?b "[2, 0, 1]"] h
  have "sample ?b 3 [2, 0, 1] = Inr [''D'', ''B'', ''C'']" by auto
  moreover from sample_result [of 4 ?b "[2, 0, 1]"] l
  have "sample ?b 4 [2, 0, 1] = Inl ValueError" by blast
  ultimately show ?thesis using h l by simp
qed

text \<open>
  C3 as stated fails on a buffer that holds the same transition twice: both positions are
  drawn, and the two elements returned are equal.
\<close>

theorem sample_duplicates_counterexample:
  "2 \<le> len_buffer \<lparr>capacity = 3, buffer = [''A'', ''A'']\<rparr>
   \<and> choice_outcome 2 2 [0, 1]
   \<and> sample \<lparr>capacity = 3, buffer = [''A'', ''A'']\<rparr> 2 [0, 1] = Inr [''A'', ''A'']
   \<and> \<not> distinct [''A'', ''A'']"
  by (simp add: len_buffer_def choice_outcome_def sample_def np_random_choice_def bind_err_def
      deque_get_def)

section \<open>The loss computed by calc\_loss\<close>

lemma max_list_Max: "xs \<noteq> [] \<Longrightarrow> max_list xs = Max (set xs)"
  by (induction xs rule: max_list.induct) (simp_all add: max.commute)

lemma loop_body_ok:
  assumes "action ex < length (net (state ex))" and "net (new_state ex) \<noteq> []"
  shows "loop_body fp (net (state ex)) (net (new_state ex)) ex
         = Inr ((net (state ex))[action ex := to_single fp (loss_target fp net ex)])"
  using assms
  by (simp add: loop_body_def bind_err_def np_max_def loss_target_def max_list_Max)

lemma target_loop_ok:
  assumes "list_all (\<lambda>ex. action ex < length (net (state ex)) \<and> net (new_state ex) \<noteq> []) batch"
  shows "target_loop fp (map (\<lambda>ex. net (state ex)) batch)
           (map (\<lambda>ex. net (new_state ex)) batch) batch
         = Inr (map (\<lambda>ex. (net (state ex))[action ex := to_single fp (loss_target fp net ex)])
                  batch)"
  using assms
  by (induction batch) (simp_all add: bind_err_def loop_body_ok)

lemma sq_single_same: "to_single fp 0 = 0 \<Longrightarrow> sq_single fp a a = 0"
  by (simp add: sq_single_def)

lemma sq_row_update:
  assumes "i < length r" and "to_single fp 0 = 0"
  shows "map (\<lambda>(a, b). sq_single fp a b) (zip r (r[i := t]))
         = (replicate (length r) 0)[i := sq_single fp (r ! i) t]"
proof (rule nth_equalityI)
  show "length (map (\<lambda>(a, b). sq_single fp a b) (zip r (r[i := t])))
        = length ((replicate (length r) 0)[i := sq_single fp (r ! i) t])" by simp
next
  fix j assume "j < length (map (\<lambda>(a, b). sq_single fp a b) (zip r (r[i := t])))"
  then have j: "j < length r" by simp
  with assms show "map (\<lambda>(a, b). sq_single fp a b) (zip r (r[i := t])) ! j
        = (replicate (length r) 0)[i := sq_single fp (r ! i) t] ! j"
    by (cases "j = i") (simp_all add: sq_single_same)
qed

lemma zip_concat_rows:
  "map length xs = map length ys \<Longrightarrow> zip (concat xs) (concat ys) = concat (map2 zip xs ys)"
proof (induction xs arbitrary: ys)
  case Nil
  then show ?case by simp
next
  case (Cons x xs)
  then obtain y ys' where ys: "ys = y # ys'" by (cases ys) auto
  with Cons.prems have "length x = length y" "map length xs = map length ys'" by simp_all
  with Cons.IH [of ys'] ys show ?case by simp
qed

lemma squares_of_rows:
  assumes "list_all (\<lambda>ex. length (f ex) = A \<and> action ex < A) batch" and "to_single fp 0 = 0"
  shows "map (\<lambda>(a, b). sq_single fp a b)
           (zip (concat (map f batch)) (concat (map (\<lambda>ex. (f ex)[action ex := g ex]) batch)))
         = concat (map (\<lambda>ex. (replicate A 0)[action ex := sq_single fp (f ex ! action ex) (g ex)])
                     batch)"
proof -
  have l: "map length (map f batch) = map length (map (\<lambda>ex. (f ex)[action ex := g ex]) batch)"
    by simp
  from assms(1) show ?thesis
    unfolding zip_concat_rows [OF l]
    by (induction batch) (simp_all add: sq_row_update [OF _ assms(2)])
qed

lemma fold_zeros:
  "to_accum fp s = s \<Longrightarrow> foldl (\<lambda>s v. to_accum fp (s + v)) s (replicate n 0) = s"
  by (induction n) simp_all

lemma fold_row:
  assumes i: "i < n" and s: "to_accum fp s = s"
    and idem: "\<forall>x. to_accum fp (to_accum fp x) = to_accum fp x"
  shows "foldl (\<lambda>s v. to_accum fp (s + v)) s ((replicate n 0)[i := v]) = to_accum fp (s + v)"
proof -
  from i have "(replicate n (0::real))[i := v] = replicate i 0 @ v # replicate (n - Suc i) 0"
    by (simp add: upd_conv_take_nth_drop min_def)
  moreover from idem have "to_accum fp (to_accum fp (s + v)) = to_accum fp (s + v)" by simp
  ultimately show ?thesis by (simp add: fold_zeros s)
qed

lemma fold_rows:
  assumes "list_all (\<lambda>ex. action ex < A) batch" and "to_accum fp s = s"
    and idem: "\<forall>x. to_accum fp (to_accum fp x) = to_accum fp x"
  shows "foldl (\<lambda>s v. to_accum fp (s + v)) s
           (concat (map (\<lambda>ex. (replicate A 0)[action ex := v ex]) batch))
         = foldl (\<lambda>s v. to_accum fp (s + v)) s (map v batch)"
  using assms(1,2)
proof (induction batch arbitrary: s)
  case Nil
  show ?case by simp
next
  case (Cons ex batch)
  from Cons.prems have a: "action ex < A" and r: "list_all (\<lambda>ex. action ex < A) batch"
    by simp_all
  from idem have f: "to_accum fp (to_accum fp (s + v ex)) = to_accum fp (s + v ex)" by simp
  from Cons.IH [OF r f] show ?case
    by (simp add: fold_row [OF a Cons.prems(2) idem])
qed

lemma length_concat_uniform:
  "list_all (\<lambda>ex. length (f ex) = A) batch \<Longrightarrow> length (concat (map f batch)) = length batch * A"
  by (induction batch) simp_all

lemma rounded_sum_exact: "rounded_sum exact_ops xs = sum_list xs"
proof -
  have "\<And>a. foldl (\<lambda>s v. s + v) a xs = a + sum_list xs"
    by (induction xs) simp_all
  then show ?thesis by (simp add: rounded_sum_def exact_ops_def)
qed

lemma calc_loss_rounded:
  assumes ne: "batch \<noteq> []"
    and sh: "list_all (\<lambda>ex. length (net (state ex)) = A \<and> length (net (new_state ex)) = A
                        \<and> action ex < A) batch"
    and z: "to_single fp 0 = 0" "to_accum fp 0 = 0"
    and idem: "\<forall>x. to_accum fp (to_accum fp x) = to_accum fp x"
  shows "calc_loss fp batch net
         = Inr (to_single fp (to_accum fp
                  (rounded_sum fp (map (sample_error fp net) batch)
                   / (real (length batch) * real A))))"
proof -
  let ?q = "map (\<lambda>ex. net (state ex)) batch"
  let ?y = "map (\<lambda>ex. (net (state ex))[action ex := to_single fp (loss_target fp net ex)]) batch"
  from sh have a: "list_all (\<lambda>ex. action ex < length (net (state ex))
                                       \<and> net (new_state ex) \<noteq> []) batch"
    by (auto simp: list_all_iff)
  from sh have b: "list_all (\<lambda>ex. length (net (state ex)) = A \<and> action ex < A) batch"
    by (auto simp: list_all_iff)
  from sh have c: "list_all (\<lambda>ex. length (net (state ex)) = A) batch"
    by (auto simp: list_all_iff)
  from sh have d: "list_all (\<lambda>ex. action ex < A) batch"
    by (auto simp: list_all_iff)
  from ne sh obtain ex where "ex \<in> set batch" "action ex < A"
    by (cases batch) (auto simp: list_all_iff)
  then have A: "0 < A" by simp
  have n: "length (concat ?q) = length batch * A"
    by (rule length_concat_uniform [OF c])
  with ne A have "0 < length (concat ?q)" by simp
  then have cne: "concat ?q \<noteq> []" by auto
  have sq: "map (\<lambda>(a, b). sq_single fp a b) (zip (concat ?q) (concat ?y))
        = concat (map (\<lambda>ex. (replicate A 0)[action ex := sample_error fp net ex]) batch)"
    unfolding sample_error_def by (rule squares_of_rows [OF b z(1)])
  have "rounded_sum fp (map (\<lambda>(a, b). sq_single fp a b) (zip (concat ?q) (concat ?y)))
        = rounded_sum fp (map (sample_error fp net) batch)"
    unfolding sq rounded_sum_def by (rule fold_rows [OF d z(2) idem])
  then have "MSELoss fp ?q ?y
        = Inr (to_single fp (to_accum fp
                  (rounded_sum fp (map (sample_error fp net) batch)
                   / (real (length batch) * real A))))"
    using cne n by (simp add: MSELoss_def)
  with ne show ?thesis
    by (simp add: calc_loss_def Let_def target_loop_ok [OF a] bind_err_def)
qed

lemma exact_ops_simps:
  "to_double exact_ops x = x" "to_single exact_ops x = x" "to_accum exact_ops x = x"
  by (simp_all add: exact_ops_def)

lemma sample_error_exact:
  "sample_error exact_ops net ex = (net (state ex) ! action ex - td_target net ex)\<^sup>2"
  by (simp add: sample_error_def sq_single_def loss_target_def td_target_def exact_ops_def)

text \<open>
  C4 (as amended). For a non-empty batch, a network with \<open>A\<close> action values per observation
  and roundings that leave 0 unchanged (the running sum's being idempotent), \<open>calc_loss\<close>
  returns the rounded sum, over the batch, of the squared differences between
  \<open>Q(state)[action]\<close> and the target as stored in single precision, divided by the batch size
  times \<open>A\<close>: the mean over all entries of the batch-by-actions matrix, whose entries away from
  the taken actions differ by zero. The target \<open>R\<close> is the reward when \<open>done\<close> holds, whatever the
  network says of the next state, and the reward plus \<open>GAMMA\<close> times the largest action value of
  the next state otherwise, from the same network. In exact arithmetic the result is the sum
  of the squared errors divided by the batch size times \<open>A\<close>.
\<close>

theorem calc_loss_value:
  assumes "batch \<noteq> []"
    and "list_all (\<lambda>ex. length (net (state ex)) = A \<and> length (net (new_state ex)) = A
                        \<and> action ex < A) batch"
    and "to_single fp 0 = 0" and "to_accum fp 0 = 0"
    and "\<forall>x. to_accum fp (to_accum fp x) = to_accum fp x"
  shows "calc_loss fp batch net
         = Inr (to_single fp (to_accum fp
                  (rounded_sum fp (map (sample_error fp net) batch)
                   / (real (length batch) * real A))))
       \<and> list_all (\<lambda>ex. sample_error fp net ex
            = sq_single fp (net (state ex) ! action ex) (to_single fp (loss_target fp net ex)))
           batch
       \<and> list_all (\<lambda>ex. is_done ex \<longrightarrow> loss_target fp net ex = reward ex) batch
       \<and> list_all (\<lambda>ex. \<not> is_done ex \<longrightarrow>
            loss_target fp net ex
            = to_double fp (reward ex
                + to_double fp (to_double fp GAMMA * Max (set (net (new_state ex)))))) batch
       \<and> calc_loss exact_ops batch net
         = Inr (squared_errors net batch / (real (length batch) * real A))"
proof -
  have "calc_loss exact_ops batch net
         = Inr (to_single exact_ops (to_accum exact_ops
                  (rounded_sum exact_ops (map (sample_error exact_ops net) batch)
                   / (real (length batch) * real A))))"
    by (rule calc_loss_rounded [OF assms(1,2)]) (simp_all add: exact_ops_simps)
  also have "map (sample_error exact_ops net) batch
             = map (\<lambda>ex. (net (state ex) ! action ex - td_target net ex)\<^sup>2) batch"
    by (simp add: sample_error_exact)
  finally have e: "calc_loss exact_ops batch net
         = Inr (squared_errors net batch / (real (length batch) * real A))"
    by (simp add: exact_ops_simps rounded_sum_exact squared_errors_def)
  from calc_loss_rounded [OF assms] e show ?thesis
    by (simp add: list_all_iff sample_error_def loss_target_def)
qed

text \<open>
  One terminal transition with reward 3 and action values \<open>[1, 0]\<close>: every number that occurs
  is a small integer, so the loss is 2 under every rounding that leaves integers unchanged.
\<close>

lemma calc_loss_small_integers:
  assumes "\<forall>k::int. to_single fp (of_int k) = of_int k"
    and "\<forall>k::int. to_accum fp (of_int k) = of_int k"
  shows "calc_loss fp
           [\<lparr>state = [[[0]]], action = 0, reward = 3, is_done = True, new_state = [[[0::real]]]\<rparr>]
           (\<lambda>s. [1, 0]) = Inr 2"
proof -
  from assms(1) [rule_format, of 0] assms(1) [rule_format, of 3] assms(1) [rule_format, of "-2"]
    assms(1) [rule_format, of 4] assms(1) [rule_format, of 2]
  have s: "to_single fp 0 = 0" "to_single fp 3 = 3" "to_single fp (-2) = -2"
    "to_single fp 4 = 4" "to_single fp 2 = 2"
    by simp_all
  from assms(2) [rule_format, of 4] assms(2) [rule_format, of 2]
  have a: "to_accum fp 4 = 4" "to_accum fp 2 = 2" by simp_all
  show ?thesis
    by (simp add: calc_loss_def Let_def bind_err_def loop_body_def MSELoss_def sq_single_def
        rounded_sum_def s a)
qed

text \<open>
  C4 as stated fails: for that transition the mean over the batch of the squared error is 4,
  and \<open>calc_loss\<close> returns 2.
\<close>

theorem calc_loss_normaliser_counterexample:
  "calc_loss exact_ops
      [\<lparr>state = [[[0]]], action = 0, reward = 3, is_done = True, new_state = [[[0::real]]]\<rparr>]
      (\<lambda>s. [1, 0]) = Inr 2
   \<and> batch_mse (\<lambda>s. [1, 0])
      [\<lparr>state = [[[0]]], action = 0, reward = 3, is_done = True, new_state = [[[0::real]]]\<rparr>] = 4"
proof -
  have "calc_loss exact_ops
      [\<lparr>state = [[[0]]], action = 0, reward = 3, is_done = True, new_state = [[[0::real]]]\<rparr>]
      (\<lambda>s. [1, 0]) = Inr 2"
    by (rule calc_loss_small_integers) (simp_all add: exact_ops_simps)
  then show ?thesis
    by (simp add: batch_mse_def squared_errors_def td_target_def)
qed

theorem calc_loss_value_witness:
  "[\<lparr>state = [[[0]]], action = 0, reward = 5 / 2, is_done = True, new_state = [[[0::real]]]\<rparr>,
    \<lparr>state = [[[0]]], action = 1, reward = 1, is_done = False, new_state = [[[1]]]\<rparr>] \<noteq> []
   \<and> calc_loss \<lparr>to_double = \<lambda>x. x, to_single = \<lambda>x. real_of_int \<lfloor>x\<rfloor>, to_accum = \<lambda>x. x\<rparr>
       [\<lparr>state = [[[0]]], action = 0, reward = 5 / 2, is_done = True, new_state = [[[0::real]]]\<rparr>,
        \<lparr>state = [[[0]]], action = 1, reward = 1, is_done = False, new_state = [[[1]]]\<rparr>]
       (\<lambda>s. if s = [[[0]]] then [1, 0] else [1, 100 / 99]) = Inr 1
   \<and> calc_loss exact_ops
       [\<lparr>state = [[[0]]], action = 0, reward = 5 / 2, is_done = True, new_state = [[[0::real]]]\<rparr>,
        \<lparr>state = [[[0]]], action = 1, reward = 1, is_done = False, new_state = [[[1]]]\<rparr>]
       (\<lambda>s. if s = [[[0]]] then [1, 0] else [1, 100 / 99]) = Inr (25 / 16)"
proof -
  let ?b = "[\<lparr>state = [[[0]]], action = 0, reward = 5 / 2, is_done = True,
              new_state = [[[0::real]]]\<rparr>,
    \<lparr>state = [[[0]]], action = 1, reward = 1, is_done = False, new_state = [[[1]]]\<rparr>]"
  let ?net = "\<lambda>s::ndarray. if s = [[[0]]] then [1, 0] else [1, 100 / 99 :: real]"
  let ?fp = "\<lparr>to_double = \<lambda>x. x, to_single = \<lambda>x. real_of_int \<lfloor>x\<rfloor>, to_accum = \<lambda>x. x\<rparr>"
  have ne: "?b \<noteq> []" by simp
  have h: "list_all (\<lambda>ex. length (?net (state ex)) = 2 \<and> length (?net (new_state ex)) = 2
                        \<and> action ex < 2) ?b" by simp
  have z: "to_single ?fp 0 = 0" "to_accum ?fp 0 = 0"
    "\<forall>x. to_accum ?fp (to_accum ?fp x) = to_accum ?fp x" by simp_all
  note T = calc_loss_value [of ?b ?net 2 ?fp, OF ne h z]
  have r: "rounded_sum ?fp (map (sample_error ?fp ?net) ?b) = 5"
    by (simp add: rounded_sum_def sample_error_def sq_single_def loss_target_def GAMMA_def)
  have e: "squared_errors ?net ?b = 25 / 4"
    by (simp add: squared_errors_def td_target_def GAMMA_def power2_eq_square)
  from T r have "calc_loss ?fp ?b ?net = Inr 1" by simp
  moreover from T e have "calc_loss exact_ops ?b ?net = Inr (25 / 16)" by simp
  ultimately show ?thesis using ne by simp
qed

section \<open>The frame stack keeps its shape\<close>

lemma has_shape_iff:
  "has_shape a (d0, d1, d2) \<longleftrightarrow>
     length a = d0 \<and> (\<forall>p\<in>set a. length p = d1 \<and> (\<forall>r\<in>set p. length r = d2))"
  by (simp add: has_shape_def list_all_iff)

lemma has_shape_replicate [simp]:
  "has_shape (replicate d0 (replicate d1 (replicate d2 x))) (d0, d1, d2)"
  by (simp add: has_shape_iff)

lemma mean_keepdims_shape:
  "has_shape a (h, w, c) \<Longrightarrow> has_shape (mean_keepdims a) (h, w, 1)"
  by (auto simp: has_shape_iff mean_keepdims_def)

lemma crop_shape:
  "has_shape a (110, w, c) \<Longrightarrow> has_shape (crop a) (84, w, c)"
  by (auto simp: has_shape_iff crop_def X_OFS_def dest: in_set_takeD in_set_dropD)

lemma channels_shape:
  "has_shape a (h, w, c) \<Longrightarrow> 0 < h \<Longrightarrow> 0 < w \<Longrightarrow> channels a = c"
  by (auto simp: has_shape_iff channels_def split: list.splits)

lemma moveaxis_shape:
  assumes "has_shape a (h, w, c)" and "0 < h" and "0 < w"
  shows "has_shape (moveaxis_2_0 a) (c, h, w)"
proof -
  from assms have "channels a = c" by (rule channels_shape)
  with assms(1) show ?thesis by (auto simp: has_shape_iff moveaxis_2_0_def)
qed

lemma scale_shape:
  "has_shape a s \<Longrightarrow> has_shape (map (map (map f)) a) s"
  by (cases s) (auto simp: has_shape_iff)

lemma ImageWrapper_observation_shape:
  assumes "has_shape (imresize raw) (110, 84, c)"
  shows "has_shape (ImageWrapper_observation imresize raw) (1, 84, 84)"
proof -
  from assms have "has_shape (mean_keepdims (imresize raw)) (110, 84, 1)"
    by (rule mean_keepdims_shape)
  then have "has_shape (crop (mean_keepdims (imresize raw))) (84, 84, 1)"
    by (rule crop_shape)
  then have "has_shape (moveaxis_2_0 (crop (mean_keepdims (imresize raw)))) (1, 84, 84)"
    by (rule moveaxis_shape) simp_all
  then show ?thesis
    unfolding ImageWrapper_observation_def by (rule scale_shape)
qed

lemma map_const_replicate:
  "\<forall>x\<in>set xs. f x = c \<Longrightarrow> map f xs = replicate (length xs) c"
  by (induction xs) auto

lemma zeros_like_shape:
  assumes "has_shape a (d0, d1, d2)"
  shows "zeros_like a = replicate d0 (replicate d1 (replicate d2 0))"
proof -
  from assms have l: "length a = d0"
    and e: "\<forall>q\<in>set a. length q = d1 \<and> (\<forall>r\<in>set q. length r = d2)"
    by (simp_all add: has_shape_iff)
  have "\<forall>q\<in>set a. map (map (\<lambda>v. 0::real)) q = replicate d1 (replicate d2 0)"
  proof
    fix q assume q: "q \<in> set a"
    with e have "\<forall>r\<in>set q. map (\<lambda>v. 0::real) r = replicate d2 0"
      by (simp add: map_replicate_const)
    then have "map (map (\<lambda>v. 0::real)) q = replicate (length q) (replicate d2 0)"
      by (rule map_const_replicate)
    with e q show "map (map (\<lambda>v. 0::real)) q = replicate d1 (replicate d2 0)" by simp
  qed
  then have "map (map (map (\<lambda>v. 0::real))) a = replicate (length a) (replicate d1 (replicate d2 0))"
    by (rule map_const_replicate)
  with l show ?thesis by (simp add: zeros_like_def)
qed

lemma channels_replicate:
  "0 < h \<Longrightarrow> 0 < w \<Longrightarrow> channels (replicate h (replicate w px)) = length px"
  by (cases h; cases w) (simp_all add: channels_def)

lemma BufferWrapper_observation_shift:
  assumes b: "has_shape buf (n, h, w)" and n: "0 < n" and ob: "has_shape observation (1, h, w)"
  shows "BufferWrapper_observation buf observation = Inr (tl buf @ [hd observation])"
    and "has_shape (tl buf @ [hd observation]) (n, h, w)"
proof -
  from ob obtain frame where o: "observation = [frame]"
    by (cases observation) (auto simp: has_shape_iff)
  with ob have f: "length frame = h" "\<forall>r\<in>set frame. length r = w"
    by (simp_all add: has_shape_iff)
  from b n have ne: "buf \<noteq> []" by (auto simp: has_shape_iff)
  then have "last buf \<in> set buf" by simp
  with b have l: "length (last buf) = h" "\<forall>r\<in>set (last buf). length r = w"
    by (simp_all add: has_shape_iff)
  from f have "map length frame = replicate h w"
    using map_const_replicate [of frame length w] by simp
  moreover from l have "map length (last buf) = replicate h w"
    using map_const_replicate [of "last buf" length w] by simp
  ultimately have same: "map length frame = map length (last buf)" by simp
  from ne o same show "BufferWrapper_observation buf observation = Inr (tl buf @ [hd observation])"
    by (simp add: BufferWrapper_observation_def shift_frames_def store_last_def)
  from b ne have "\<forall>p\<in>set (tl buf). length p = h \<and> (\<forall>r\<in>set p. length r = w)"
    by (auto simp: has_shape_iff dest: list.set_sel(2))
  with b ne n o f show "has_shape (tl buf @ [hd observation]) (n, h, w)"
    by (auto simp: has_shape_iff)
qed

lemma BufferWrapper_low_shape:
  assumes "has_shape (imresize raw_low) (110, 84, c)"
  shows "zeros_like (BufferWrapper_low (ImageWrapper_low imresize raw_low) 4)
         = replicate 4 (replicate 84 (replicate 84 0))"
proof -
  from assms have "has_shape (ImageWrapper_observation imresize raw_low) (1, 84, 84)"
    by (rule ImageWrapper_observation_shape)
  then have "zeros_like (ImageWrapper_observation imresize raw_low)
             = replicate 1 (replicate 84 (replicate 84 0))"
    by (rule zeros_like_shape)
  then have "ImageWrapper_low imresize raw_low = [replicate 84 (replicate 84 0)]"
    by (simp add: ImageWrapper_low_def)
  then have "BufferWrapper_low (ImageWrapper_low imresize raw_low) 4
             = replicate 4 (replicate 84 (replicate 84 0))"
    by (simp add: BufferWrapper_low_def)
  moreover have "zeros_like (replicate 4 (replicate 84 (replicate 84 (0::real))))
                 = replicate 4 (replicate 84 (replicate 84 0))"
    by (rule zeros_like_shape) (rule has_shape_replicate)
  ultimately show ?thesis by simp
qed

text \<open>
  C7. With \<open>imresize\<close> returning 110 by 84 images, \<open>ImageWrapper\<close> yields observations of shape
  \<open>(1, 84, 84)\<close>; a reset of \<open>BufferWrapper\<close> (built with \<open>n_steps = 4\<close>) returns three frames
  of zeros followed by the new frame, of shape \<open>(4, 84, 84)\<close>; and a step on a buffer of that
  shape drops the oldest frame, moves the others one place older, puts the new frame last,
  and keeps the shape.
\<close>

theorem frame_stacker_shape:
  assumes "\<forall>r. has_shape (imresize r) (110, 84, c)"
  shows "has_shape (ImageWrapper_observation imresize raw) (1, 84, 84)
       \<and> BufferWrapper_reset (BufferWrapper_low (ImageWrapper_low imresize raw_low) 4)
            (ImageWrapper_observation imresize raw)
          = Inr (replicate 3 (replicate 84 (replicate 84 0))
                 @ [hd (ImageWrapper_observation imresize raw)])
       \<and> has_shape (replicate 3 (replicate 84 (replicate 84 0))
                    @ [hd (ImageWrapper_observation imresize raw)]) (4, 84, 84)
       \<and> (has_shape buf (4, 84, 84) \<longrightarrow>
            BufferWrapper_observation buf (ImageWrapper_observation imresize raw)
              = Inr (tl buf @ [hd (ImageWrapper_observation imresize raw)])
            \<and> has_shape (tl buf @ [hd (ImageWrapper_observation imresize raw)]) (4, 84, 84))"
proof -
  let ?o = "ImageWrapper_observation imresize raw"
  let ?z = "replicate 4 (replicate 84 (replicate 84 (0::real)))"
  from assms have o: "has_shape ?o (1, 84, 84)"
    by (intro ImageWrapper_observation_shape) (rule spec)
  from assms have z: "zeros_like (BufferWrapper_low (ImageWrapper_low imresize raw_low) 4) = ?z"
    by (intro BufferWrapper_low_shape) (rule spec)
  have zs: "has_shape ?z (4, 84, 84)" by simp
  have t: "tl ?z = replicate 3 (replicate 84 (replicate 84 (0::real)))"
    by simp
  from BufferWrapper_observation_shift [OF zs _ o] z t
  have r: "BufferWrapper_reset (BufferWrapper_low (ImageWrapper_low imresize raw_low) 4) ?o
           = Inr (replicate 3 (replicate 84 (replicate 84 0)) @ [hd ?o])"
    and rs: "has_shape (replicate 3 (replicate 84 (replicate 84 0)) @ [hd ?o]) (4, 84, 84)"
    by (simp_all add: BufferWrapper_reset_def)
  have s: "has_shape buf (4, 84, 84) \<longrightarrow>
            BufferWrapper_observation buf ?o = Inr (tl buf @ [hd ?o])
            \<and> has_shape (tl buf @ [hd ?o]) (4, 84, 84)"
    using BufferWrapper_observation_shift [OF _ _ o, of buf 4] by simp
  from o r rs s show ?thesis by blast
qed

theorem frame_stacker_shape_witness:
  "(\<forall>r. has_shape ((\<lambda>v::real. replicate 110 (replicate 84 [v, v, v])) r) (110, 84, 3))
   \<and> ImageWrapper_observation (\<lambda>v. replicate 110 (replicate 84 [v, v, v])) 255
       = [replicate 84 (replicate 84 1)]
   \<and> BufferWrapper_reset
        (BufferWrapper_low (ImageWrapper_low (\<lambda>v. replicate 110 (replicate 84 [v, v, v])) 0) 4)
        (ImageWrapper_observation (\<lambda>v. replicate 110 (replicate 84 [v, v, v])) 255)
      = Inr [replicate 84 (replicate 84 0), replicate 84 (replicate 84 0),
             replicate 84 (replicate 84 0), replicate 84 (replicate 84 1)]
   \<and> has_shape (replicate 4 (replicate 84 (replicate 84 0))) (4, 84, 84)
   \<and> BufferWrapper_observation (replicate 4 (replicate 84 (replicate 84 0)))
        (ImageWrapper_observation (\<lambda>v. replicate 110 (replicate 84 [v, v, v])) 255)
      = Inr [replicate 84 (replicate 84 0), replicate 84 (replicate 84 0),
             replicate 84 (replicate 84 0), replicate 84 (replicate 84 1)]"
proof -
  let ?im = "\<lambda>v::real. replicate 110 (replicate 84 [v, v, v])"
  have c: "\<forall>r. has_shape (?im r) (110, 84, 3)"
    by (simp add: has_shape_iff)
  have o: "ImageWrapper_observation ?im 255 = [replicate 84 (replicate 84 1)]"
    by (simp add: ImageWrapper_observation_def mean_keepdims_def crop_def X_OFS_def
        moveaxis_2_0_def channels_replicate)
  have z: "has_shape (replicate 4 (replicate 84 (replicate 84 (0::real)))) (4, 84, 84)"
    by simp
  note F = frame_stacker_shape [OF c, of 255 0 "replicate 4 (replicate 84 (replicate 84 0))"]
  from F have "BufferWrapper_reset (BufferWrapper_low (ImageWrapper_low ?im 0) 4)
        (ImageWrapper_observation ?im 255)
      = Inr [replicate 84 (replicate 84 0), replicate 84 (replicate 84 0),
             replicate 84 (replicate 84 0), replicate 84 (replicate 84 1)]"
    by (simp add: o numeral_3_eq_3)
  moreover from F z have "BufferWrapper_observation (replicate 4 (replicate 84 (replicate 84 0)))
        (ImageWrapper_observation ?im 255)
      = Inr [replicate 84 (replicate 84 0), replicate 84 (replicate 84 0),
             replicate 84 (replicate 84 0), replicate 84 (replicate 84 1)]"
    by (simp add: o numeral_3_eq_3)
  ultimately show ?thesis using c o z by simp
qed

section \<open>The agent and the arrays it stores\<close>

lemma extends_iff:
  "extends w w' \<longleftrightarrow>
     length (heap w) \<le> length (heap w')
     \<and> (env_buffer w' = env_buffer w \<or> length (heap w) \<le> env_buffer w')
     \<and> (\<forall>a < length (heap w). a \<noteq> env_buffer w \<longrightarrow> heap w' ! a = heap w ! a)"
  by (auto simp: extends_def list_all_iff)

lemma extends_refl: "extends w w"
  by (simp add: extends_iff)

lemma extends_trans:
  assumes "extends w1 w2" and "extends w2 w3" and "env_buffer w1 < length (heap w1)"
  shows "extends w1 w3"
proof -
  have "\<forall>a < length (heap w1). a \<noteq> env_buffer w1 \<longrightarrow> heap w3 ! a = heap w1 ! a"
  proof (intro allI impI)
    fix a assume a: "a < length (heap w1)" "a \<noteq> env_buffer w1"
    with assms(1) have "a \<noteq> env_buffer w2" "a < length (heap w2)" "heap w2 ! a = heap w1 ! a"
      by (auto simp: extends_iff)
    with assms(2) show "heap w3 ! a = heap w1 ! a" by (simp add: extends_iff)
  qed
  moreover from assms have "length (heap w1) \<le> length (heap w3)" by (simp add: extends_iff)
  moreover from assms have "env_buffer w3 = env_buffer w1 \<or> length (heap w1) \<le> env_buffer w3"
    by (auto simp: extends_iff)
  ultimately show ?thesis by (simp add: extends_iff)
qed

lemma wf_world_iff:
  "wf_world w \<longleftrightarrow>
     env_buffer w < length (heap w) \<and> has_shape (heap w ! env_buffer w) (4, 84, 84)
     \<and> agent_state w < length (heap w) \<and> agent_state w \<noteq> env_buffer w
     \<and> 0 \<le> capacity (exp_buffer w)
     \<and> (\<forall>ex\<in>set (buffer (exp_buffer w)).
           state ex < length (heap w) \<and> state ex \<noteq> env_buffer w
           \<and> new_state ex < length (heap w) \<and> new_state ex \<noteq> env_buffer w)"
  by (simp add: wf_world_def list_all_iff)

lemma env_step_ok:
  assumes c: "\<forall>r. has_shape (resize X r) (110, 84, c)"
    and s: "has_shape (heap w ! env_buffer w) (4, 84, 84)"
    and g: "gym_step X (gym w) act = (g1, raw, r, d)"
  shows "has_shape (tl (heap w ! env_buffer w) @ [hd (ImageWrapper_observation (resize X) raw)])
           (4, 84, 84)
       \<and> env_step X w act
         = Inr (w\<lparr>heap := (heap w)[env_buffer w :=
                     tl (heap w ! env_buffer w) @ [hd (ImageWrapper_observation (resize X) raw)]],
                  gym := g1\<rparr>, env_buffer w, r, d)"
proof -
  let ?o = "ImageWrapper_observation (resize X) raw"
  from c have o: "has_shape ?o (1, 84, 84)"
    by (intro ImageWrapper_observation_shape) (rule spec)
  have "BufferWrapper_observation (heap w ! env_buffer w) ?o
        = Inr (tl (heap w ! env_buffer w) @ [hd ?o])"
    and "has_shape (tl (heap w ! env_buffer w) @ [hd ?o]) (4, 84, 84)"
    using BufferWrapper_observation_shift [OF s _ o] by simp_all
  then show ?thesis by (simp add: env_step_def g bind_err_def)
qed

lemma env_reset_ok:
  assumes c: "\<forall>r. has_shape (resize X r) (110, 84, c)"
    and g: "gym_reset X (gym w) = (g1, raw)"
  shows "\<exists>contents. has_shape contents (4, 84, 84)
           \<and> env_reset X w
             = Inr (w\<lparr>heap := heap w @ [contents], gym := g1, env_buffer := length (heap w)\<rparr>,
                    length (heap w))"
proof -
  let ?o = "ImageWrapper_observation (resize X) raw"
  let ?z = "replicate 4 (replicate 84 (replicate 84 (0::real)))"
  from c have o: "has_shape ?o (1, 84, 84)"
    by (intro ImageWrapper_observation_shape) (rule spec)
  from c have z: "zeros_like (space_low X) = ?z"
    unfolding space_low_def by (intro BufferWrapper_low_shape) (rule spec)
  have zs: "has_shape ?z (4, 84, 84)" by simp
  have "BufferWrapper_observation ?z ?o = Inr (tl ?z @ [hd ?o])"
    and "has_shape (tl ?z @ [hd ?o]) (4, 84, 84)"
    using BufferWrapper_observation_shift [OF zs _ o] by simp_all
  then show ?thesis
    by (intro exI [of _ "tl ?z @ [hd ?o]"])
       (simp add: env_reset_def alloc_def z g bind_err_def)
qed

lemma Agent_reset_ok:
  assumes c: "\<forall>r. has_shape (resize X r) (110, 84, c)"
    and g: "gym_reset X (gym w) = (g1, raw)"
  shows "\<exists>contents. has_shape contents (4, 84, 84)
           \<and> Agent_reset X w
             = Inr (w\<lparr>heap := heap w @ [contents, contents], gym := g1,
                      env_buffer := length (heap w), agent_state := Suc (length (heap w)),
                      total_reward := 0\<rparr>)"
proof -
  from env_reset_ok [OF c g] obtain contents where
    "has_shape contents (4, 84, 84)"
    "env_reset X w
       = Inr (w\<lparr>heap := heap w @ [contents], gym := g1, env_buffer := length (heap w)\<rparr>,
              length (heap w))"
    by blast
  then show ?thesis by (auto simp: Agent_reset_def bind_err_def alloc_def)
qed

lemma Agent_reset_wf:
  assumes c: "\<forall>r. has_shape (resize X r) (110, 84, c)"
    and b: "0 \<le> capacity (exp_buffer w)"
      "\<forall>ex\<in>set (buffer (exp_buffer w)). state ex < length (heap w) \<and> new_state ex < length (heap w)"
  shows "\<exists>w'. Agent_reset X w = Inr w' \<and> wf_world w'
           \<and> exp_buffer w' = exp_buffer w
           \<and> length (heap w) \<le> length (heap w') \<and> length (heap w) \<le> env_buffer w'
           \<and> (\<forall>a < length (heap w). heap w' ! a = heap w ! a)"
proof -
  obtain g1 raw where g: "gym_reset X (gym w) = (g1, raw)" by (cases "gym_reset X (gym w)")
  from Agent_reset_ok [OF c g] obtain contents where
    s: "has_shape contents (4, 84, 84)" and
    r: "Agent_reset X w
         = Inr (w\<lparr>heap := heap w @ [contents, contents], gym := g1,
                  env_buffer := length (heap w), agent_state := Suc (length (heap w)),
                  total_reward := 0\<rparr>)"
    by blast
  let ?w = "w\<lparr>heap := heap w @ [contents, contents], gym := g1,
              env_buffer := length (heap w), agent_state := Suc (length (heap w)),
              total_reward := 0\<rparr>"
  from s b have "wf_world ?w"
    by (auto simp: wf_world_iff nth_append)
  moreover have "\<forall>a < length (heap w). heap ?w ! a = heap w ! a"
    by (simp add: nth_append)
  ultimately show ?thesis using r by simp
qed

lemma play_step_ok:
  assumes c: "\<forall>r. has_shape (resize X r) (110, 84, c)"
    and wf: "wf_world w"
    and a: "select_action net eps (fst rnd) (snd rnd) (heap w ! agent_state w) = Inr act"
    and g: "gym_step X (gym w) act = (g1, raw, r, d)"
  shows "\<exists>w'. play_step X net eps rnd w
                = Inr (w', if d then Some (total_reward w + r) else None)
           \<and> wf_world w' \<and> extends w w'
           \<and> buffer (exp_buffer w')
             = drop (Suc (length (buffer (exp_buffer w))) - nat (capacity (exp_buffer w)))
                 (buffer (exp_buffer w)
                  @ [\<lparr>state = agent_state w, action = act, reward = r, is_done = d,
                      new_state = length (heap w)\<rparr>])
           \<and> capacity (exp_buffer w') = capacity (exp_buffer w)
           \<and> length (heap w) < length (heap w')
           \<and> length (heap w) \<noteq> env_buffer w'
           \<and> agent_state w \<noteq> env_buffer w'
           \<and> heap w' ! length (heap w)
             = tl (heap w ! env_buffer w) @ [hd (ImageWrapper_observation (resize X) raw)]
           \<and> heap w' ! agent_state w = heap w ! agent_state w
           \<and> gym w' = (if d then fst (gym_reset X g1) else g1)"
proof -
  let ?contents = "tl (heap w ! env_buffer w) @ [hd (ImageWrapper_observation (resize X) raw)]"
  from wf have sh: "has_shape (heap w ! env_buffer w) (4, 84, 84)"
    and eb: "env_buffer w < length (heap w)"
    and ag: "agent_state w < length (heap w)" "agent_state w \<noteq> env_buffer w"
    and cap: "0 \<le> capacity (exp_buffer w)"
    and old: "\<forall>ex\<in>set (buffer (exp_buffer w)).
           state ex < length (heap w) \<and> state ex \<noteq> env_buffer w
           \<and> new_state ex < length (heap w) \<and> new_state ex \<noteq> env_buffer w"
    by (simp_all add: wf_world_iff)
  from env_step_ok [OF c sh g] have
    cs: "has_shape ?contents (4, 84, 84)" and
    es: "env_step X w act
         = Inr (w\<lparr>heap := (heap w)[env_buffer w := ?contents], gym := g1\<rparr>, env_buffer w, r, d)"
    by simp_all
  let ?e = "\<lparr>state = agent_state w, action = act, reward = r, is_done = d,
             new_state = length (heap w)\<rparr>"
  let ?k = "Suc (length (buffer (exp_buffer w))) - nat (capacity (exp_buffer w))"
  let ?b = "(exp_buffer w)\<lparr>buffer := drop ?k (buffer (exp_buffer w) @ [?e])\<rparr>"
  let ?w2 = "w\<lparr>gym := g1, heap := (heap w)[env_buffer w := ?contents] @ [?contents],
               agent_state := length (heap w), total_reward := total_reward w + r,
               exp_buffer := ?b\<rparr>"
  have ap: "append_exp (exp_buffer w) ?e = Inr ?b"
    by (rule append_exp_drop [OF cap])
  have body: "play_step X net eps rnd w
        = (if d then bind_err (Agent_reset X ?w2) (\<lambda>w3. Inr (w3, Some (total_reward ?w2)))
           else Inr (?w2, None))"
    using eb by (simp add: play_step_def a es ap bind_err_def alloc_def Let_def)
  have mem: "\<forall>ex\<in>set (buffer ?b).
           state ex < length (heap ?w2) \<and> state ex \<noteq> env_buffer ?w2
           \<and> new_state ex < length (heap ?w2) \<and> new_state ex \<noteq> env_buffer ?w2"
  proof
    fix ex assume "ex \<in> set (buffer ?b)"
    then have "ex \<in> set (buffer (exp_buffer w) @ [?e])"
      by (auto dest: in_set_dropD)
    then have "ex \<in> set (buffer (exp_buffer w)) \<or> ex = ?e" by auto
    with old ag eb show "state ex < length (heap ?w2) \<and> state ex \<noteq> env_buffer ?w2
           \<and> new_state ex < length (heap ?w2) \<and> new_state ex \<noteq> env_buffer ?w2"
      by (auto simp: less_Suc_eq)
  qed
  from cs eb cap mem have wf2: "wf_world ?w2"
    unfolding wf_world_iff by (simp add: nth_append)
  have ex2: "extends w ?w2"
    by (simp add: extends_iff nth_append)
  from eb ag have k2: "heap ?w2 ! length (heap w) = ?contents"
    "heap ?w2 ! agent_state w = heap w ! agent_state w"
    by (simp_all add: nth_append)
  show ?thesis
  proof (cases d)
    case False
    with body wf2 ex2 k2 eb ag show ?thesis by simp
  next
    case True
    obtain g2 raw2 where gr: "gym_reset X (gym ?w2) = (g2, raw2)"
      by (cases "gym_reset X (gym ?w2)")
    from Agent_reset_ok [OF c gr] obtain c2 where
      s3: "has_shape c2 (4, 84, 84)" and
      r3: "Agent_reset X ?w2
           = Inr (?w2\<lparr>heap := heap ?w2 @ [c2, c2], gym := g2,
                       env_buffer := length (heap ?w2),
                       agent_state := Suc (length (heap ?w2)), total_reward := 0\<rparr>)"
      by blast
    let ?w3 = "?w2\<lparr>heap := heap ?w2 @ [c2, c2], gym := g2,
                    env_buffer := length (heap ?w2),
                    agent_state := Suc (length (heap ?w2)), total_reward := 0\<rparr>"
    have mem3: "\<forall>ex\<in>set (buffer (exp_buffer ?w3)).
           state ex < length (heap ?w3) \<and> state ex \<noteq> env_buffer ?w3
           \<and> new_state ex < length (heap ?w3) \<and> new_state ex \<noteq> env_buffer ?w3"
    proof
      fix ex assume "ex \<in> set (buffer (exp_buffer ?w3))"
      then have "ex \<in> set (buffer ?b)" by simp
      with mem have "state ex < length (heap ?w2) \<and> new_state ex < length (heap ?w2)"
        by blast
      then show "state ex < length (heap ?w3) \<and> state ex \<noteq> env_buffer ?w3
           \<and> new_state ex < length (heap ?w3) \<and> new_state ex \<noteq> env_buffer ?w3"
        by simp
    qed
    from s3 cap mem3 have wf3: "wf_world ?w3"
      unfolding wf_world_iff by (simp add: nth_append)
    have "extends ?w2 ?w3" by (simp add: extends_iff nth_append)
    with ex2 have ex3: "extends w ?w3" using eb by (rule extends_trans)
    from eb ag have k3: "heap ?w3 ! length (heap w) = ?contents"
      "heap ?w3 ! agent_state w = heap w ! agent_state w"
      by (simp_all add: nth_append)
    from gr have g3: "gym ?w3 = fst (gym_reset X g1)" by simp
    have "play_step X net eps rnd w = Inr (?w3, Some (total_reward w + r))"
      using body True r3 by (simp add: bind_err_def)
    moreover have "buffer (exp_buffer ?w3) = drop ?k (buffer (exp_buffer w) @ [?e])"
      "capacity (exp_buffer ?w3) = capacity (exp_buffer w)"
      "length (heap w) < length (heap ?w3)"
      "length (heap w) \<noteq> env_buffer ?w3" "agent_state w \<noteq> env_buffer ?w3"
      using ag by simp_all
    ultimately show ?thesis using wf3 ex3 k3 g3 True
      by (intro exI [of _ ?w3]) (simp only: if_True simp_thms)
  qed
qed

lemma select_action_ok:
  assumes "case net of None \<Rightarrow> u < eps | Some f \<Rightarrow> \<forall>st. f st \<noteq> []"
  shows "\<exists>act. select_action net eps u a st = Inr act"
proof (cases net)
  case None
  with assms show ?thesis by (simp add: select_action_def)
next
  case (Some f)
  with assms have "f st \<noteq> []" by simp
  with Some show ?thesis by (simp add: select_action_def argmax_def)
qed

lemma select_action_random:
  "u < eps \<Longrightarrow> select_action net eps u a st = Inr a"
  by (simp add: select_action_def)

lemma play_step_random:
  assumes "fst rnd < eps"
  shows "play_step X net eps rnd w = play_step X None eps rnd w"
proof -
  from assms have "select_action net eps (fst rnd) (snd rnd) (heap w ! agent_state w)
        = select_action None eps (fst rnd) (snd rnd) (heap w ! agent_state w)"
    by (simp add: select_action_random)
  then show ?thesis unfolding play_step_def by (rule arg_cong2 [OF _ refl])
qed

lemma play_steps_random:
  "list_all (\<lambda>rnd. fst rnd < eps) rnds \<Longrightarrow>
   play_steps X net eps rnds w = play_steps X None eps rnds w"
proof (induction rnds arbitrary: w)
  case Nil
  show ?case by simp
next
  case (Cons rnd rnds)
  from Cons.prems have h: "fst rnd < eps" and t: "list_all (\<lambda>rnd. fst rnd < eps) rnds"
    by simp_all
  have s: "play_step X net eps rnd w = play_step X None eps rnd w"
    by (rule play_step_random [OF h])
  have "\<And>w1. play_steps X net eps rnds w1 = play_steps X None eps rnds w1"
    by (rule Cons.IH [OF t])
  then have "(\<lambda>(w1, r). play_steps X net eps rnds w1)
             = (\<lambda>(w1, r :: real option). play_steps X None eps rnds w1)"
    by simp
  with s show ?case by (simp only: play_steps.simps)
qed

lemma play_step_returns:
  assumes c: "\<forall>r. has_shape (resize X r) (110, 84, c)"
    and wf: "wf_world w"
    and a: "select_action net eps (fst rnd) (snd rnd) (heap w ! agent_state w) = Inr act"
  shows "\<exists>w' r. play_step X net eps rnd w = Inr (w', r) \<and> wf_world w' \<and> extends w w'"
proof -
  obtain g1 raw r d where g: "gym_step X (gym w) act = (g1, raw, r, d)"
    by (cases "gym_step X (gym w) act") auto
  from play_step_ok [OF c wf a g] show ?thesis by blast
qed

lemma play_steps_ok:
  assumes c: "\<forall>r. has_shape (resize X r) (110, 84, c)"
    and wf: "wf_world w"
    and sel: "case net of None \<Rightarrow> list_all (\<lambda>rnd. fst rnd < eps) rnds
              | Some f \<Rightarrow> \<forall>st. f st \<noteq> []"
  shows "\<exists>w'. play_steps X net eps rnds w = Inr w' \<and> wf_world w' \<and> extends w w'"
  using wf sel
proof (induction rnds arbitrary: w)
  case Nil
  then show ?case by (simp add: extends_refl)
next
  case (Cons rnd rnds)
  from Cons.prems(2) have "case net of None \<Rightarrow> fst rnd < eps | Some f \<Rightarrow> \<forall>st. f st \<noteq> []"
    by (cases net) simp_all
  from select_action_ok [OF this] obtain act where
    "select_action net eps (fst rnd) (snd rnd) (heap w ! agent_state w) = Inr act" by blast
  from play_step_returns [OF c Cons.prems(1) this] obtain w1 r where
    p: "play_step X net eps rnd w = Inr (w1, r)" and wf1: "wf_world w1" and e1: "extends w w1"
    by blast
  from Cons.prems(2) have "case net of None \<Rightarrow> list_all (\<lambda>rnd. fst rnd < eps) rnds
              | Some f \<Rightarrow> \<forall>st. f st \<noteq> []"
    by (cases net) simp_all
  from Cons.IH [OF wf1 this] obtain w' where
    ps: "play_steps X net eps rnds w1 = Inr w'" and wf': "wf_world w'" and e': "extends w1 w'"
    by blast
  from Cons.prems(1) have "env_buffer w < length (heap w)" by (simp add: wf_world_iff)
  with e1 e' have "extends w w'" by (rule extends_trans)
  with p ps wf' show ?case by (simp add: bind_err_def)
qed

lemma Agent_init_wf:
  assumes c: "\<forall>r. has_shape (resize X r) (110, 84, c)"
  shows "\<exists>w0. Agent_init X g = Inr w0 \<and> wf_world w0"
proof -
  let ?w = "\<lparr>heap = [], gym = g, env_buffer = 0, agent_state = 0, total_reward = 0,
             exp_buffer = ExperienceBuffer_init REPLAY_SIZE\<rparr>"
  have a: "0 \<le> capacity (exp_buffer ?w)"
    by (simp add: ExperienceBuffer_init_def REPLAY_SIZE_def)
  have b: "\<forall>ex\<in>set (buffer (exp_buffer ?w)).
      state ex < length (heap ?w) \<and> new_state ex < length (heap ?w)"
    by (simp add: ExperienceBuffer_init_def)
  from Agent_reset_wf [OF c a b] obtain w' where
    "Agent_reset X ?w = Inr w'" "wf_world w'" by blast
  then show ?thesis unfolding Agent_init_def by blast
qed

lemma extends_keeps:
  assumes "wf_world w" and "extends w w'"
  shows "list_all (\<lambda>ex. heap w' ! state ex = heap w ! state ex
                       \<and> heap w' ! new_state ex = heap w ! new_state ex)
           (buffer (exp_buffer w))"
proof -
  have "\<forall>ex\<in>set (buffer (exp_buffer w)).
          heap w' ! state ex = heap w ! state ex
          \<and> heap w' ! new_state ex = heap w ! new_state ex"
  proof
    fix ex assume "ex \<in> set (buffer (exp_buffer w))"
    with assms(1) have "state ex < length (heap w)" "state ex \<noteq> env_buffer w"
      "new_state ex < length (heap w)" "new_state ex \<noteq> env_buffer w"
      by (simp_all add: wf_world_iff)
    with assms(2) show "heap w' ! state ex = heap w ! state ex
          \<and> heap w' ! new_state ex = heap w ! new_state ex"
      by (simp add: extends_iff)
  qed
  then show ?thesis by (simp add: list_all_iff)
qed

lemma example_contract: "\<forall>r. has_shape (resize example_externals r) (110, 84, 3)"
  by (simp add: example_externals_def has_shape_iff)

lemma example_world_wf: "wf_world example_world"
  by (simp add: wf_world_def example_world_def REPLAY_SIZE_def list_all_iff)

text \<open>
  C9. A call of \<open>play_step\<close> with \<open>epsilon = 1.0\<close> and a random number \<open>u\<close> in \<open>[0, 1)\<close> selects
  the random action and gives the same result whatever network is passed, \<open>None\<close> included;
  from a well-formed world it returns. The warm-up loop, started after \<open>Agent(env, exp_buffer)\<close>,
  returns without an error, so no call of it evaluates the network, and any network in place
  of \<open>None\<close> would give the same run.
\<close>

theorem warmup_random_branch:
  assumes "\<forall>r. has_shape (resize X r) (110, 84, c)"
    and "\<forall>i<REPLAY_START_SIZE. 0 \<le> fst (rnds i) \<and> fst (rnds i) < 1"
    and "0 \<le> u" and "u < 1"
  shows "select_action net 1 u a st = Inr a
       \<and> play_step X net 1 (u, a) w = play_step X None 1 (u, a) w
       \<and> (wf_world w \<longrightarrow> (\<exists>w1 r. play_step X None 1 (u, a) w = Inr (w1, r)))
       \<and> play_steps X net 1 (map rnds [0..<REPLAY_START_SIZE]) w = warmup X rnds w
       \<and> (\<exists>w0 w'. Agent_init X g = Inr w0 \<and> warmup X rnds w0 = Inr w')"
proof (intro conjI impI)
  from assms(4) show "select_action net 1 u a st = Inr a"
    by (rule select_action_random)
  from assms(4) show "play_step X net 1 (u, a) w = play_step X None 1 (u, a) w"
    by (intro play_step_random) simp
  from assms(2) have r: "list_all (\<lambda>rnd. fst rnd < 1) (map rnds [0..<REPLAY_START_SIZE])"
    by (simp add: list_all_iff)
  then show "play_steps X net 1 (map rnds [0..<REPLAY_START_SIZE]) w = warmup X rnds w"
    unfolding warmup_def by (rule play_steps_random)
  from Agent_init_wf [OF assms(1)] obtain w0 where
    i: "Agent_init X g = Inr w0" and wf0: "wf_world w0" by blast
  from r have "case None :: (ndarray \<Rightarrow> real list) option of
               None \<Rightarrow> list_all (\<lambda>rnd. fst rnd < 1) (map rnds [0..<REPLAY_START_SIZE])
             | Some f \<Rightarrow> \<forall>st. f st \<noteq> []" by simp
  from play_steps_ok [OF assms(1) wf0 this] i
  show "\<exists>w0 w'. Agent_init X g = Inr w0 \<and> warmup X rnds w0 = Inr w'"
    unfolding warmup_def by blast
next
  assume wf: "wf_world w"
  from assms(4) have "select_action None 1 (fst (u, a)) (snd (u, a)) (heap w ! agent_state w)
                      = Inr a"
    by (simp add: select_action_random)
  from play_step_returns [OF assms(1) wf this]
  show "\<exists>w1 r. play_step X None 1 (u, a) w = Inr (w1, r)" by blast
qed

theorem warmup_random_branch_witness:
  "(\<forall>r. has_shape (resize example_externals r) (110, 84, 3))
   \<and> (0::real) \<le> 1 / 2 \<and> (1::real) / 2 < 1
   \<and> select_action None 1 (1 / 2) 1 (replicate 4 (replicate 84 (replicate 84 0))) = Inr 1
   \<and> play_step example_externals (Some (\<lambda>st. [])) 1 (1 / 2, 1) example_world
       = play_step example_externals None 1 (1 / 2, 1) example_world
   \<and> wf_world example_world
   \<and> (\<exists>w1 r. play_step example_externals None 1 (1 / 2, 1) example_world = Inr (w1, r))
   \<and> (\<exists>w0 w'. Agent_init example_externals 0 = Inr w0
               \<and> warmup example_externals (\<lambda>i. (1 / 2, i mod 2)) w0 = Inr w')"
proof -
  have h: "\<forall>i<REPLAY_START_SIZE. 0 \<le> fst ((\<lambda>i. (1 / 2 :: real, i mod 2)) i)
                                \<and> fst ((\<lambda>i. (1 / 2 :: real, i mod 2)) i) < 1"
    by simp
  have u: "(0::real) \<le> 1 / 2" "(1::real) / 2 < 1" by simp_all
  note T = warmup_random_branch [OF example_contract h u]
  from T [of None 1 "replicate 4 (replicate 84 (replicate 84 0))"]
  have a: "select_action None 1 (1 / 2) 1 (replicate 4 (replicate 84 (replicate 84 0))) = Inr 1"
    by (rule conjunct1)
  from T [of "Some (\<lambda>st. [])" 1 "[]" example_world 0]
  have b: "play_step example_externals (Some (\<lambda>st. [])) 1 (1 / 2, 1) example_world
       = play_step example_externals None 1 (1 / 2, 1) example_world"
    and c: "wf_world example_world \<longrightarrow>
            (\<exists>w1 r. play_step example_externals None 1 (1 / 2, 1) example_world = Inr (w1, r))"
    and d: "\<exists>w0 w'. Agent_init example_externals 0 = Inr w0
               \<and> warmup example_externals (\<lambda>i. (1 / 2, i mod 2)) w0 = Inr w'"
    by blast+
  from a b c d u example_contract example_world_wf show ?thesis by blast
qed

text \<open>
  C10. From a well-formed world a call of \<open>play_step\<close> appends an experience whose \<open>state\<close> is
  the array the agent kept from the previous call and whose \<open>new_state\<close> is a new array with
  the contents of \<open>BufferWrapper.buffer\<close> after the step, both other than
  \<open>BufferWrapper.buffer\<close> itself; \<open>env.step\<close> returns \<open>BufferWrapper.buffer\<close>, the same array at
  every step, rewritten in place; and after any number of further calls of \<open>play_step\<close> the
  arrays of every experience that was in the replay buffer hold what they held.
\<close>

theorem experiences_are_snapshots:
  assumes c: "\<forall>r. has_shape (resize X r) (110, 84, c)"
    and wf: "wf_world w"
    and sel: "case net of None \<Rightarrow> list_all (\<lambda>rnd. fst rnd < eps) rnds
              | Some f \<Rightarrow> \<forall>st. f st \<noteq> []"
    and a: "select_action net eps (fst rnd) (snd rnd) (heap w ! agent_state w) = Inr act"
    and g: "gym_step X (gym w) act = (g1, raw, r, d)"
    and cap: "1 \<le> capacity (exp_buffer w)"
  shows "(\<exists>w1 dr. play_step X net eps rnd w = Inr (w1, dr)
            \<and> last (buffer (exp_buffer w1))
              = \<lparr>state = agent_state w, action = act, reward = r, is_done = d,
                 new_state = length (heap w)\<rparr>
            \<and> agent_state w \<noteq> env_buffer w1 \<and> length (heap w) \<noteq> env_buffer w1
            \<and> heap w1 ! agent_state w = heap w ! agent_state w
            \<and> heap w1 ! length (heap w)
              = tl (heap w ! env_buffer w) @ [hd (ImageWrapper_observation (resize X) raw)])
       \<and> (\<exists>w2. env_step X w act = Inr (w2, env_buffer w, r, d)
            \<and> env_buffer w2 = env_buffer w \<and> length (heap w2) = length (heap w)
            \<and> heap w2 ! env_buffer w
              = tl (heap w ! env_buffer w) @ [hd (ImageWrapper_observation (resize X) raw)])
       \<and> (\<exists>w'. play_steps X net eps rnds w = Inr w'
            \<and> wf_world w'
            \<and> list_all (\<lambda>ex. heap w' ! state ex = heap w ! state ex
                            \<and> heap w' ! new_state ex = heap w ! new_state ex)
                 (buffer (exp_buffer w)))"
proof (intro conjI)
  let ?e = "\<lparr>state = agent_state w, action = act, reward = r, is_done = d,
             new_state = length (heap w)\<rparr>"
  let ?k = "Suc (length (buffer (exp_buffer w))) - nat (capacity (exp_buffer w))"
  from cap have k: "?k < length (buffer (exp_buffer w) @ [?e])" by simp
  have l: "last (drop ?k (buffer (exp_buffer w) @ [?e])) = ?e"
    using last_drop [OF k] by simp
  from play_step_ok [OF c wf a g] l
  show "\<exists>w1 dr. play_step X net eps rnd w = Inr (w1, dr)
            \<and> last (buffer (exp_buffer w1)) = ?e
            \<and> agent_state w \<noteq> env_buffer w1 \<and> length (heap w) \<noteq> env_buffer w1
            \<and> heap w1 ! agent_state w = heap w ! agent_state w
            \<and> heap w1 ! length (heap w)
              = tl (heap w ! env_buffer w) @ [hd (ImageWrapper_observation (resize X) raw)]"
    by (metis (no_types, lifting))
next
  from wf have sh: "has_shape (heap w ! env_buffer w) (4, 84, 84)"
    and eb: "env_buffer w < length (heap w)"
    by (simp_all add: wf_world_iff)
  from env_step_ok [OF c sh g] eb
  show "\<exists>w2. env_step X w act = Inr (w2, env_buffer w, r, d)
            \<and> env_buffer w2 = env_buffer w \<and> length (heap w2) = length (heap w)
            \<and> heap w2 ! env_buffer w
              = tl (heap w ! env_buffer w) @ [hd (ImageWrapper_observation (resize X) raw)]"
    by simp
next
  from play_steps_ok [OF c wf sel] obtain w' where
    "play_steps X net eps rnds w = Inr w'" "wf_world w'" "extends w w'" by blast
  with extends_keeps [OF wf] show "\<exists>w'. play_steps X net eps rnds w = Inr w'
            \<and> wf_world w'
            \<and> list_all (\<lambda>ex. heap w' ! state ex = heap w ! state ex
                            \<and> heap w' ! new_state ex = heap w ! new_state ex)
                 (buffer (exp_buffer w))" by blast
qed

theorem experiences_are_snapshots_witness:
  "(\<forall>r. has_shape (resize example_externals r) (110, 84, 3))
   \<and> wf_world example_world
   \<and> list_all (\<lambda>rnd. fst rnd < 1) [(1 / 2, 0), (1 / 4, 1), (3 / 4, 0), (0 :: real, 1 :: nat)]
   \<and> select_action None 1 (1 / 2) 0 (heap example_world ! agent_state example_world) = Inr 0
   \<and> gym_step example_externals (gym example_world) 0 = (1, 0, 1, False)
   \<and> 1 \<le> capacity (exp_buffer example_world)
   \<and> (\<exists>w1 dr. play_step example_externals None 1 (1 / 2, 0) example_world = Inr (w1, dr)
         \<and> last (buffer (exp_buffer w1))
           = \<lparr>state = 1, action = 0, reward = 1, is_done = False, new_state = 2\<rparr>
         \<and> 1 \<noteq> env_buffer w1 \<and> 2 \<noteq> env_buffer w1
         \<and> heap w1 ! 1 = replicate 4 (replicate 84 (replicate 84 0))
         \<and> heap w1 ! 2
           = replicate 3 (replicate 84 (replicate 84 0)) @ [replicate 84 (replicate 84 0)])
   \<and> (\<exists>w'. play_steps example_externals None 1
               [(1 / 2, 0), (1 / 4, 1), (3 / 4, 0), (0, 1)] example_world = Inr w'
         \<and> wf_world w'
         \<and> list_all (\<lambda>ex. heap w' ! state ex = heap example_world ! state ex
                         \<and> heap w' ! new_state ex = heap example_world ! new_state ex)
              (buffer (exp_buffer example_world)))"
proof -
  let ?rnds = "[(1 / 2, 0), (1 / 4, 1), (3 / 4, 0), (0 :: real, 1 :: nat)]"
  have sel: "case None :: (ndarray \<Rightarrow> real list) option of
               None \<Rightarrow> list_all (\<lambda>rnd. fst rnd < 1) ?rnds
             | Some f \<Rightarrow> \<forall>st. f st \<noteq> []" by simp
  have l: "list_all (\<lambda>rnd. fst rnd < 1) ?rnds" by simp
  have a: "select_action None 1 (fst (1 / 2 :: real, 0 :: nat)) (snd (1 / 2 :: real, 0 :: nat))
             (heap example_world ! agent_state example_world) = Inr 0"
    by (simp add: select_action_def)
  have g: "gym_step example_externals (gym example_world) 0 = (1, 0, 1, False)"
    by (simp add: example_externals_def example_world_def)
  have cap: "1 \<le> capacity (exp_buffer example_world)"
    by (simp add: example_world_def REPLAY_SIZE_def)
  have o: "ImageWrapper_observation (resize example_externals) 0
           = [replicate 84 (replicate 84 0)]"
    by (simp add: example_externals_def ImageWrapper_observation_def mean_keepdims_def crop_def
        X_OFS_def moveaxis_2_0_def channels_replicate)
  have h: "agent_state example_world = 1" "length (heap example_world) = 2"
    "heap example_world ! 1 = replicate 4 (replicate 84 (replicate 84 0))"
    "tl (heap example_world ! env_buffer example_world)
           = replicate 3 (replicate 84 (replicate 84 0))"
    by (simp_all add: example_world_def)
  note T = experiences_are_snapshots [OF example_contract example_world_wf sel a g cap]
  from T obtain w1 dr where
    p: "play_step example_externals None 1 (1 / 2, 0) example_world = Inr (w1, dr)"
    and f1: "last (buffer (exp_buffer w1))
           = \<lparr>state = agent_state example_world, action = 0, reward = 1, is_done = False,
              new_state = length (heap example_world)\<rparr>"
    and f2: "agent_state example_world \<noteq> env_buffer w1"
    and f3: "length (heap example_world) \<noteq> env_buffer w1"
    and f4: "heap w1 ! agent_state example_world
             = heap example_world ! agent_state example_world"
    and f5: "heap w1 ! length (heap example_world)
             = tl (heap example_world ! env_buffer example_world)
               @ [hd (ImageWrapper_observation (resize example_externals) 0)]"
    by blast
  note q1 = f1 [unfolded h]
  note q2 = f2 [unfolded h]
  note q3 = f3 [unfolded h]
  note q4 = f4 [unfolded h]
  note q5 = f5 [unfolded h o list.sel]
  from p q1 q2 q3 q4 q5
  have "\<exists>w1 dr. play_step example_externals None 1 (1 / 2, 0) example_world = Inr (w1, dr)
         \<and> last (buffer (exp_buffer w1))
           = \<lparr>state = 1, action = 0, reward = 1, is_done = False, new_state = 2\<rparr>
         \<and> 1 \<noteq> env_buffer w1 \<and> 2 \<noteq> env_buffer w1
         \<and> heap w1 ! 1 = replicate 4 (replicate 84 (replicate 84 0))
         \<and> heap w1 ! 2
           = replicate 3 (replicate 84 (replicate 84 0)) @ [replicate 84 (replicate 84 0)]"
    by blast
  moreover from T have "\<exists>w'. play_steps example_externals None 1 ?rnds example_world = Inr w'
         \<and> wf_world w'
         \<and> list_all (\<lambda>ex. heap w' ! state ex = heap example_world ! state ex
                         \<and> heap w' ! new_state ex = heap example_world ! new_state ex)
              (buffer (exp_buffer example_world))"
    by (rule conjunct2 [OF conjunct2])
  moreover have "select_action None 1 (1 / 2) 0
                   (heap example_world ! agent_state example_world) = Inr 0"
    using a by simp
  ultimately show ?thesis
    using example_contract example_world_wf l g cap by blast
qed

section \<open>The training loop\<close>


lemma map_nth_prefix: "map ((!) (xs @ ys)) [0..<length xs] = xs"
proof -
  have "map ((!) (xs @ ys)) [0..<length xs] = map ((!) xs) [0..<length xs]"
    by (rule map_cong) (simp_all add: nth_append)
  then show ?thesis by (simp add: map_nth)
qed

text \<open>
  C1. An iteration of the loop that returns has made one call of \<open>play_step\<close>; with at least
  \<open>BATCH_SIZE\<close> transitions in the replay buffer it has sampled one batch and computed the loss
  of the value network on it and the gradients of that loss, and with fewer it has left the
  gradients alone; it has synchronised the target network when \<open>frame_idx\<close> is a multiple of
  \<open>SYNC_TARGET_FRAMES\<close>, zero included, and has advanced \<open>frame_idx\<close> by one. The parameters of
  the value network are the same after the iteration as before it: the loop computes
  gradients, and no statement of it applies them.
\<close>

theorem train_iter_effect:
  assumes "train_iter X rnd s = Inr s'"
  shows "(\<exists>r. play_phase X (fst rnd) s = Inr (world s', r))
       \<and> learn_phase X (snd rnd) s (world s') = Inr (grads s')
       \<and> (BATCH_SIZE \<le> len_buffer (exp_buffer (world s')) \<longrightarrow>
            (\<exists>batch loss_v.
               sample (exp_buffer (world s')) BATCH_SIZE (snd rnd) = Inr batch
               \<and> calc_loss (fops X) (map (load (heap (world s'))) batch)
                    (forward X (model (tgt_net s))) = Inr loss_v
               \<and> grads s' = backward X (model (tgt_net s))
                               (map (load (heap (world s'))) batch) (zero_grad X)))
       \<and> (len_buffer (exp_buffer (world s')) < BATCH_SIZE \<longrightarrow> grads s' = grads s)
       \<and> model (tgt_net s') = model (tgt_net s)
       \<and> target_model (tgt_net s')
         = (if frame_idx s mod SYNC_TARGET_FRAMES = 0 then model (tgt_net s)
            else target_model (tgt_net s))
       \<and> epsilon s' = epsilon_at (to_double (fops X)) (frame_idx s)
       \<and> frame_idx s' = frame_idx s + 1"
proof -
  from assms obtain w1 r where p: "play_phase X (fst rnd) s = Inr (w1, r)"
    by (auto simp: train_iter_def bind_err_def split: sum.splits)
  with assms obtain g where l: "learn_phase X (snd rnd) s w1 = Inr g"
    by (auto simp: train_iter_def bind_err_def split: sum.splits)
  from assms p l have s': "s' = s\<lparr>world := w1, grads := g,
                         epsilon := epsilon_at (to_double (fops X)) (frame_idx s),
                         tgt_net := (if frame_idx s mod SYNC_TARGET_FRAMES = 0
                                     then sync (tgt_net s) else tgt_net s),
                         frame_idx := frame_idx s + 1\<rparr>"
    by (simp add: train_iter_def bind_err_def)
  have big: "BATCH_SIZE \<le> len_buffer (exp_buffer w1) \<longrightarrow>
            (\<exists>batch loss_v.
               sample (exp_buffer w1) BATCH_SIZE (snd rnd) = Inr batch
               \<and> calc_loss (fops X) (map (load (heap w1)) batch)
                    (forward X (model (tgt_net s))) = Inr loss_v
               \<and> g = backward X (model (tgt_net s)) (map (load (heap w1)) batch) (zero_grad X))"
    using l by (auto simp: learn_phase_def bind_err_def split: sum.splits)
  have small: "len_buffer (exp_buffer w1) < BATCH_SIZE \<longrightarrow> g = grads s"
    using l by (auto simp: learn_phase_def)
  from p l big small show ?thesis
    unfolding s' by (simp add: sync_def)
qed

theorem train_iter_effect_witness:
  "\<exists>s'. train_iter example_externals ((1 / 2, 0), [0..<32]) example_session = Inr s'
     \<and> BATCH_SIZE \<le> len_buffer (exp_buffer (world s'))
     \<and> grads example_session = 0 \<and> grads s' = 1
     \<and> model (tgt_net example_session) = 1 \<and> model (tgt_net s') = 1
     \<and> target_model (tgt_net s') = 1
     \<and> frame_idx s' = 1"
proof -
  let ?X = "example_externals"
  let ?s = "example_session"
  let ?e0 = "\<lparr>state = 1, action = 0, reward = 0, is_done = False, new_state = 1\<rparr> :: addr Experience"
  let ?e1 = "\<lparr>state = 1, action = 0, reward = 1, is_done = False, new_state = 2\<rparr> :: addr Experience"
  have wf: "wf_world (world ?s)"
    by (simp add: example_session_def example_world_wf)
  have a: "select_action (Some (forward ?X (target_model (tgt_net ?s)))) (epsilon ?s)
             (fst (1 / 2 :: real, 0 :: nat)) (snd (1 / 2 :: real, 0 :: nat))
             (heap (world ?s) ! agent_state (world ?s)) = Inr 0"
    by (simp add: select_action_def example_session_def)
  have g: "gym_step ?X (gym (world ?s)) 0 = (1, 0, 1, False)"
    by (simp add: example_externals_def example_session_def example_world_def)
  from play_step_ok [OF example_contract wf a g] obtain w1 where
    p: "play_step ?X (Some (forward ?X (target_model (tgt_net ?s)))) (epsilon ?s) (1 / 2, 0)
          (world ?s) = Inr (w1, if False then Some (total_reward (world ?s) + 1) else None)"
    and b: "buffer (exp_buffer w1)
         = drop (Suc (length (buffer (exp_buffer (world ?s))))
                 - nat (capacity (exp_buffer (world ?s))))
             (buffer (exp_buffer (world ?s))
              @ [\<lparr>state = agent_state (world ?s), action = 0, reward = 1, is_done = False,
                  new_state = length (heap (world ?s))\<rparr>])"
    by blast
  from p have pp: "play_phase ?X (1 / 2, 0) ?s = Inr (w1, None)"
    by (simp add: play_phase_def)
  from b have b1: "buffer (exp_buffer w1) = replicate 32 ?e0 @ [?e1]"
    by (simp add: example_session_def example_world_def REPLAY_SIZE_def)
  then have len: "len_buffer (exp_buffer w1) = 33" by (simp add: len_buffer_def)
  have "map ((!) (replicate 32 ?e0 @ [?e1])) [0..<length (replicate 32 ?e0)] = replicate 32 ?e0"
    by (rule map_nth_prefix)
  then have m: "map ((!) (replicate 32 ?e0 @ [?e1])) [0..<32] = replicate 32 ?e0" by simp
  have "list_all (\<lambda>i. i < length (replicate 32 ?e0 @ [?e1])) [0..<32]"
    by (simp add: list_all_iff)
  then have "get_all (replicate 32 ?e0 @ [?e1]) [0..<32] = Inr (replicate 32 ?e0)"
    by (simp only: get_all_map m)
  then have sm: "sample (exp_buffer w1) BATCH_SIZE [0..<32] = Inr (replicate 32 ?e0)"
    by (simp add: sample_def b1 np_random_choice_def BATCH_SIZE_def bind_err_def)
  let ?batch = "map (load (heap w1)) (replicate 32 ?e0)"
  let ?net = "forward ?X (model (tgt_net ?s))"
  have ne: "?batch \<noteq> []" by simp
  have sh: "list_all (\<lambda>ex. length (?net (state ex)) = 2 \<and> length (?net (new_state ex)) = 2
                          \<and> action ex < 2) ?batch"
    by (simp add: list_all_iff example_externals_def load_def)
  have f: "fops ?X = exact_ops" by (simp add: example_externals_def)
  have "calc_loss (fops ?X) ?batch ?net
        = Inr (to_single (fops ?X) (to_accum (fops ?X)
                 (rounded_sum (fops ?X) (map (sample_error (fops ?X) ?net) ?batch)
                  / (real (length ?batch) * real 2))))"
    by (rule calc_loss_rounded [OF ne sh]) (simp_all add: f exact_ops_simps)
  then obtain v where cl: "calc_loss (fops ?X) ?batch ?net = Inr v" by blast
  have ge: "BATCH_SIZE \<le> len_buffer (exp_buffer w1)" by (simp add: len BATCH_SIZE_def)
  have "learn_phase ?X [0..<32] ?s w1
        = Inr (backward ?X (model (tgt_net ?s)) ?batch (zero_grad ?X))"
    by (simp only: learn_phase_def ge if_True sm cl bind_err_def sum.case)
  moreover have "backward ?X (model (tgt_net ?s)) ?batch (zero_grad ?X) = 1"
    by (simp add: example_externals_def)
  ultimately have lp: "learn_phase ?X [0..<32] ?s w1 = Inr 1" by simp
  let ?s1 = "?s\<lparr>world := w1, grads := 1,
                epsilon := epsilon_at (to_double (fops ?X)) (frame_idx ?s),
                tgt_net := (if frame_idx ?s mod SYNC_TARGET_FRAMES = 0
                            then sync (tgt_net ?s) else tgt_net ?s),
                frame_idx := frame_idx ?s + 1\<rparr>"
  have t: "train_iter ?X ((1 / 2, 0), [0..<32]) ?s = Inr ?s1"
    by (simp add: train_iter_def pp lp bind_err_def)
  note T = train_iter_effect [OF t]
  from T have "model (tgt_net ?s1) = model (tgt_net ?s)" by blast
  moreover from T have "frame_idx ?s1 = frame_idx ?s + 1" by blast
  moreover from T have "target_model (tgt_net ?s1)
         = (if frame_idx ?s mod SYNC_TARGET_FRAMES = 0 then model (tgt_net ?s)
            else target_model (tgt_net ?s))" by blast
  moreover have "model (tgt_net ?s) = 1" "frame_idx ?s = 0" "grads ?s = 0"
    by (simp_all add: example_session_def TargetNet_init_def)
  moreover have "BATCH_SIZE \<le> len_buffer (exp_buffer (world ?s1))" "grads ?s1 = 1"
    by (simp_all add: len BATCH_SIZE_def)
  ultimately show ?thesis using t
    by (intro exI [of _ ?s1]) simp
qed

end
